theory Spec2Isabelle
  imports Complex_Main
begin

section \<open>Numbers of the nutrient value pipeline\<close>

text \<open>
  The program is a single Python module (\<^verbatim>\<open>app.py\<close>). Its quantities are Python floats;
  they are embedded as exact reals (finite values, no representation error), and Python's
  \<^verbatim>\<open>int\<close> as \<^typ>\<open>int\<close>; \<^verbatim>\<open>round_g\<close> is given its float semantics as well, further down. Python's built-in \<^verbatim>\<open>round\<close> rounds a tie to the even neighbour.
\<close>

definition py_round :: "real \<Rightarrow> int" where
  \<comment> \<open>\<^verbatim>\<open>round(v)\<close>: nearest integer, ties to even\<close>
  "py_round v =
     (let f = \<lfloor>v\<rfloor>; d = v - of_int f
      in if d < 1 / 2 then f
         else if 1 / 2 < d then f + 1
         else if even f then f else f + 1)"

definition py_int :: "real \<Rightarrow> int" where
  \<comment> \<open>\<^verbatim>\<open>int(v)\<close> of a float: truncation towards zero\<close>
  "py_int v = (if 0 \<le> v then \<lfloor>v\<rfloor> else \<lceil>v\<rceil>)"

definition py_round_nd :: "real \<Rightarrow> nat \<Rightarrow> real" where
  \<comment> \<open>\<^verbatim>\<open>round(v, n)\<close> on a float: a float with \<open>n\<close> decimals\<close>
  "py_round_nd v n = of_int (py_round (v * 10 ^ n)) / 10 ^ n"

definition portion_from_per100 :: "real \<Rightarrow> real \<Rightarrow> real" where
  "portion_from_per100 value_per100 portion_size =
     (if portion_size \<noteq> 0 \<and> portion_size > 0 then (value_per100 * portion_size) / 100
      else 0)"

definition kcal_from_macros :: "real \<Rightarrow> real \<Rightarrow> real \<Rightarrow> real" where
  \<comment> \<open>the two optional arguments keep their defaults \<^verbatim>\<open>0.0\<close> at every call;
      \<^verbatim>\<open>(x or 0)\<close> is \<open>x\<close> for a number\<close>
  "kcal_from_macros fat_g carb_g protein_g =
     9 * fat_g + 4 * carb_g + 4 * protein_g + 7 * 0 + 3 * 0"

definition round_kcal :: "real option \<Rightarrow> real" where
  \<comment> \<open>the argument is the outcome of \<^verbatim>\<open>float(v)\<close>: \<open>None\<close> when the conversion raises\<close>
  "round_kcal fv =
     (case fv of
        None \<Rightarrow> 0
      | Some v \<Rightarrow> if v \<le> 4 then 0 else v)"

definition round_g :: "real \<Rightarrow> real" where
  "round_g v =
     (let av = \<bar>v\<bar>
      in if av \<ge> 100 then of_int (py_int (py_round_nd v 0))
         else py_round_nd v 1)"

definition round_mg :: "real \<Rightarrow> int" where
  "round_mg v_mg = (if v_mg < 5 then 0 else py_round v_mg)"

section \<open>Strings and number formatting\<close>

text \<open>
  A Python \<^verbatim>\<open>str\<close> is embedded as a \<^typ>\<open>string\<close> holding its UTF-8 bytes, so an accented
  letter of a nutrient name is two characters. Only equality, concatenation and the
  stripping of ASCII characters are used on them.
\<close>

abbreviation i_acute :: string where "i_acute \<equiv> [CHR 0xC3, CHR 0xAD]"
abbreviation o_acute :: string where "o_acute \<equiv> [CHR 0xC3, CHR 0xB3]"
abbreviation u_acute :: string where "u_acute \<equiv> [CHR 0xC3, CHR 0xBA]"
abbreviation n_tilde :: string where "n_tilde \<equiv> [CHR 0xC3, CHR 0xB1]"
abbreviation micro_sign :: string where "micro_sign \<equiv> [CHR 0xC2, CHR 0xB5]"

abbreviation Azucares_totales :: string where
  "Azucares_totales \<equiv> ''Az'' @ u_acute @ ''cares totales''"
abbreviation Azucares_anadidos :: string where
  "Azucares_anadidos \<equiv> ''Az'' @ u_acute @ ''cares a'' @ n_tilde @ ''adidos''"
abbreviation Proteina :: string where
  "Proteina \<equiv> ''Prote'' @ i_acute @ ''na''"
abbreviation Calorias :: string where
  "Calorias \<equiv> ''Calor'' @ i_acute @ ''as''"
abbreviation Informacion_nutricional :: string where
  "Informacion_nutricional \<equiv> ''Informaci'' @ o_acute @ ''n nutricional''"

fun show_nat :: "nat \<Rightarrow> string" where
  "show_nat n =
     (if n < 10 then [''0123456789'' ! n]
      else show_nat (n div 10) @ [''0123456789'' ! (n mod 10)])"

definition show_int :: "int \<Rightarrow> string" where
  \<comment> \<open>\<^verbatim>\<open>str(i)\<close> and \<^verbatim>\<open>f"{i}"\<close> of an int\<close>
  "show_int i = (if i < 0 then ''-'' @ show_nat (nat (- i)) else show_nat (nat i))"

definition fmt_fixed :: "real \<Rightarrow> nat \<Rightarrow> string" where
  \<comment> \<open>\<^verbatim>\<open>f"{v:.nf}"\<close>: sign, integer part, point, exactly \<open>n\<close> decimals\<close>
  "fmt_fixed v n =
     (let q = nat (py_round (\<bar>v\<bar> * 10 ^ n));
          ip = show_nat (q div 10 ^ n);
          fp = show_nat (q mod 10 ^ n)
      in (if v < 0 then ''-'' else []) @ ip
         @ (if n = 0 then [] else ''.'' @ replicate (n - length fp) (CHR ''0'') @ fp))"

definition rstrip :: "char \<Rightarrow> string \<Rightarrow> string" where
  \<comment> \<open>\<^verbatim>\<open>s.rstrip(c)\<close> for a one-character argument\<close>
  "rstrip c s = rev (dropWhile (\<lambda>x. x = c) (rev s))"

definition isspace :: "char \<Rightarrow> bool" where
  "isspace c = (c \<in> set [CHR 0x09, CHR 0x0A, CHR 0x0B, CHR 0x0C, CHR 0x0D,
                          CHR 0x1C, CHR 0x1D, CHR 0x1E, CHR 0x1F, CHR 0x20])"

definition strip :: "string \<Rightarrow> string" where
  \<comment> \<open>\<^verbatim>\<open>s.strip()\<close>, for the white space of ASCII\<close>
  "strip s = rev (dropWhile isspace (rev (dropWhile isspace s)))"

fun join :: "string \<Rightarrow> string list \<Rightarrow> string" where
  "join sep [] = []"
| "join sep [x] = x"
| "join sep (x # y # ys) = x @ sep @ join sep (y # ys)"

function remove_all :: "string \<Rightarrow> string \<Rightarrow> string" where
  \<comment> \<open>\<^verbatim>\<open>s.replace(p, "")\<close> for a non-empty \<open>p\<close>\<close>
  "remove_all p [] = []"
| "remove_all p (c # cs) =
     (if p \<noteq> [] \<and> take (length p) (c # cs) = p
      then remove_all p (drop (length p) (c # cs))
      else c # remove_all p cs)"
  by pat_completeness auto
termination
  by (relation "measure (\<lambda>(p, s). length s)") (auto simp: Suc_le_eq)

definition fmt_kcal :: "real \<Rightarrow> string" where
  "fmt_kcal v =
     (if v = 0 then ''0''
      else rstrip (CHR ''.'') (rstrip (CHR ''0'') (fmt_fixed v 1)))"

definition fmt_int :: "real option \<Rightarrow> string" where
  "fmt_int fv = (case fv of None \<Rightarrow> ''0'' | Some v \<Rightarrow> show_int (py_round v))"

definition fmt_one_decimal :: "real option \<Rightarrow> string" where
  "fmt_one_decimal fv =
     (case fv of
        None \<Rightarrow> ''0''
      | Some v \<Rightarrow> if v \<in> \<int> then show_int (py_int v) else fmt_fixed v 1)"

definition fmt_carbs_rule :: "real option \<Rightarrow> string" where
  "fmt_carbs_rule fv =
     (case fv of
        None \<Rightarrow> ''0''
      | Some v \<Rightarrow> if v \<in> \<int> then show_int (py_int v) else fmt_fixed v 1)"

definition fmt_micro_value :: "string \<Rightarrow> string \<Rightarrow> real option \<Rightarrow> string" where
  "fmt_micro_value name unit0 fv =
     (case fv of
        None \<Rightarrow> ''0 '' @ unit0
      | Some v \<Rightarrow>
          let unit = (if name = ''Vitamina A'' then micro_sign @ ''g ER''
                      else if name = ''Vitamina D'' then micro_sign @ ''g''
                      else unit0)
          in if \<bar>v\<bar> < 1 then fmt_fixed v 2 @ '' '' @ unit
             else if \<bar>v\<bar> < 10 then fmt_fixed v 1 @ '' '' @ unit
             else if \<bar>v\<bar> \<ge> 100 then show_int (py_round v) @ '' '' @ unit
             else show_int (py_round v) @ '' '' @ unit)"

definition fmt_art9 :: "real option \<Rightarrow> bool \<Rightarrow> string" where
  \<comment> \<open>the first argument is the outcome of \<^verbatim>\<open>float(value)\<close>\<close>
  "fmt_art9 fv is_micro =
     (case fv of
        None \<Rightarrow> ''0''
      | Some v \<Rightarrow>
          let av = \<bar>v\<bar>
          in if av \<ge> 1000 then show_int (py_round v)
             else if av \<ge> 100 then show_int (py_round v)
             else if av \<ge> 10 then show_int (py_round v)
             else if av \<ge> 1 then rstrip (CHR ''.'') (rstrip (CHR ''0'') (fmt_fixed v 1))
             else if is_micro then fmt_fixed v 2
             else fmt_fixed v 1)"

section \<open>Input snapshot and calculations\<close>

text \<open>
  The module keeps the form's state in globals. The record below is that state after the
  coercion \<^verbatim>\<open>as_num\<close>; the \<open>in_\<close> fields are the numbers typed into the per-100 text
  inputs, read only when the nutrient is selected.
\<close>

datatype format_choice = Fig1_Vertical | Fig3_Simplificado | Fig5_Lineal

datatype physical_state = Solido_g | Liquido_mL

record snapshot =
  format_choice :: format_choice
  physical_state :: physical_state
  household_name :: string
  household_mass :: real
  servings_value :: real
  servings_label :: string
  selected_macros :: "string list"
  selected_optional_fats :: "string list"
  selected_vm :: "string list"
  include_poly :: bool
  in_poly :: real
  in_fat_total :: real
  in_sat_fat :: real
  in_trans_fat_mg :: real
  in_mono_fat :: real
  in_poly_fat :: real
  in_carb :: real
  in_sug_total :: real
  in_sug_added :: real
  in_fiber :: real
  in_protein :: real
  in_sodium_mg :: real
  in_vm :: "string \<Rightarrow> real"

definition macro_order :: "string list" where
  "macro_order =
     [''Grasa total'', ''Grasa saturada'', ''Grasas trans'', ''Carbohidratos totales'',
      ''Fibra dietaria'', Azucares_totales, Azucares_anadidos, Proteina, ''Sodio'']"

definition mandatory_micros :: "string list" where
  "mandatory_micros = [''Vitamina A'', ''Vitamina D'', ''Hierro'', ''Calcio'', ''Zinc'']"

definition portion_unit :: "snapshot \<Rightarrow> string" where
  "portion_unit s = (if physical_state s = Solido_g then ''g'' else ''mL'')"

definition is_liquid :: "snapshot \<Rightarrow> bool" where
  "is_liquid s = (physical_state s = Liquido_mL)"

definition footnote_text :: "snapshot \<Rightarrow> string" where
  "footnote_text s =
     (let macros_not_declared = filter (\<lambda>m. m \<notin> set (selected_macros s)) macro_order;
          micros_not_declared = filter (\<lambda>m. m \<notin> set (selected_vm s)) mandatory_micros;
          footnote_items = macros_not_declared @ micros_not_declared
      in if footnote_items \<noteq> []
         then ''No es fuente significativa de '' @ join '', '' footnote_items
         else [])"

definition poly_100 :: "snapshot \<Rightarrow> real" where
  "poly_100 s = (if include_poly s then in_poly s else 0)"

definition servings_display :: "snapshot \<Rightarrow> string" where
  "servings_display s =
     (if strip (servings_label s) \<noteq> [] then strip (servings_label s)
      else if servings_value s > 0 then show_int (py_round (servings_value s))
      else ''0'')"

definition fat_total_100 :: "snapshot \<Rightarrow> real" where
  "fat_total_100 s = (if ''Grasa total'' \<in> set (selected_macros s) then in_fat_total s else 0)"

definition sat_fat_100 :: "snapshot \<Rightarrow> real" where
  "sat_fat_100 s = (if ''Grasa saturada'' \<in> set (selected_macros s) then in_sat_fat s else 0)"

definition trans_fat_100_mg :: "snapshot \<Rightarrow> real" where
  "trans_fat_100_mg s =
     (if ''Grasas trans'' \<in> set (selected_macros s) then in_trans_fat_mg s else 0)"

definition mono_fat_100 :: "snapshot \<Rightarrow> real" where
  "mono_fat_100 s =
     (if ''Grasa monoinsaturada'' \<in> set (selected_optional_fats s) then in_mono_fat s else 0)"

definition poly_fat_100 :: "snapshot \<Rightarrow> real" where
  "poly_fat_100 s =
     (if ''Grasa poliinsaturada'' \<in> set (selected_optional_fats s) then in_poly_fat s else 0)"

definition carb_100 :: "snapshot \<Rightarrow> real" where
  "carb_100 s = (if ''Carbohidratos totales'' \<in> set (selected_macros s) then in_carb s else 0)"

definition sug_total_100 :: "snapshot \<Rightarrow> real" where
  "sug_total_100 s = (if Azucares_totales \<in> set (selected_macros s) then in_sug_total s else 0)"

definition sug_added_100 :: "snapshot \<Rightarrow> real" where
  "sug_added_100 s = (if Azucares_anadidos \<in> set (selected_macros s) then in_sug_added s else 0)"

definition fiber_100 :: "snapshot \<Rightarrow> real" where
  "fiber_100 s = (if ''Fibra dietaria'' \<in> set (selected_macros s) then in_fiber s else 0)"

definition protein_100 :: "snapshot \<Rightarrow> real" where
  "protein_100 s = (if Proteina \<in> set (selected_macros s) then in_protein s else 0)"

definition sodium_100_mg :: "snapshot \<Rightarrow> real" where
  "sodium_100_mg s = (if ''Sodio'' \<in> set (selected_macros s) then in_sodium_mg s else 0)"

definition vm_unit :: "string \<Rightarrow> string" where
  "vm_unit name =
     (if name = ''Vitamina A'' then micro_sign @ ''g ER''
      else if name = ''Vitamina D'' then micro_sign @ ''g'' else ''mg'')"

definition vm_values :: "snapshot \<Rightarrow> ((string \<times> string) \<times> real) list" where
  \<comment> \<open>the dict in insertion order: the first column holds the even positions of the
      selection, the second the odd ones\<close>
  "vm_values s =
     (let sel = enumerate 0 (selected_vm s);
          entry = (\<lambda>(i, vm). ((vm, vm_unit vm), in_vm s vm))
      in map entry (filter (\<lambda>(i, vm). i mod 2 = 0) sel)
         @ map entry (filter (\<lambda>(i, vm). i mod 2 = 1) sel))"

definition portion_size :: "snapshot \<Rightarrow> real" where
  "portion_size s = household_mass s"

definition fat_total_pp :: "snapshot \<Rightarrow> real" where
  "fat_total_pp s = portion_from_per100 (fat_total_100 s) (portion_size s)"

definition sat_fat_pp :: "snapshot \<Rightarrow> real" where
  "sat_fat_pp s = portion_from_per100 (sat_fat_100 s) (portion_size s)"

definition trans_fat_pp_mg :: "snapshot \<Rightarrow> real" where
  "trans_fat_pp_mg s = portion_from_per100 (trans_fat_100_mg s) (portion_size s)"

definition carb_pp :: "snapshot \<Rightarrow> real" where
  "carb_pp s = portion_from_per100 (carb_100 s) (portion_size s)"

definition sug_total_pp :: "snapshot \<Rightarrow> real" where
  "sug_total_pp s = portion_from_per100 (sug_total_100 s) (portion_size s)"

definition sug_added_pp :: "snapshot \<Rightarrow> real" where
  "sug_added_pp s = portion_from_per100 (sug_added_100 s) (portion_size s)"

definition fiber_pp :: "snapshot \<Rightarrow> real" where
  "fiber_pp s = portion_from_per100 (fiber_100 s) (portion_size s)"

definition protein_pp :: "snapshot \<Rightarrow> real" where
  "protein_pp s = portion_from_per100 (protein_100 s) (portion_size s)"

definition sodium_pp_mg :: "snapshot \<Rightarrow> real" where
  "sodium_pp_mg s = portion_from_per100 (sodium_100_mg s) (portion_size s)"

definition mono_fat_pp :: "snapshot \<Rightarrow> real" where
  "mono_fat_pp s = portion_from_per100 (mono_fat_100 s) (portion_size s)"

definition poly_fat_pp :: "snapshot \<Rightarrow> real" where
  "poly_fat_pp s = portion_from_per100 (poly_fat_100 s) (portion_size s)"

definition kcal_100_raw :: "snapshot \<Rightarrow> real" where
  "kcal_100_raw s = kcal_from_macros (fat_total_100 s) (carb_100 s) (protein_100 s)"

definition kcal_pp_raw :: "snapshot \<Rightarrow> real" where
  "kcal_pp_raw s = kcal_from_macros (fat_total_pp s) (carb_pp s) (protein_pp s)"

definition kcal_100 :: "snapshot \<Rightarrow> real" where
  "kcal_100 s = round_kcal (Some (kcal_100_raw s))"

definition kcal_pp :: "snapshot \<Rightarrow> real" where
  "kcal_pp s = round_kcal (Some (kcal_pp_raw s))"

definition dict_get :: "('k \<times> 'v) list \<Rightarrow> 'k \<Rightarrow> 'v \<Rightarrow> 'v" where
  \<comment> \<open>\<^verbatim>\<open>d.get(k, default)\<close>\<close>
  "dict_get d k dflt = (case map_of d k of None \<Rightarrow> dflt | Some v \<Rightarrow> v)"

definition nonsig_zero_g :: "string \<Rightarrow> real \<Rightarrow> real" where
  "nonsig_zero_g name v =
     (let limits =
            [(''Carbohidratos totales'', 0.5),
             (Azucares_totales, 0.5),
             (Proteina, 0.5),
             (''Grasa total'', 0.5),
             (''Fibra dietaria'', 0.5),
             (''Grasa saturada'', 0.1)]
      in if v \<le> dict_get limits name (- 1) then 0 else v)"

definition nonsig_zero_mg :: "string \<Rightarrow> real \<Rightarrow> real" where
  "nonsig_zero_mg name v =
     (let limits = [(''Grasas trans'', 100), (''Sodio'', 5)]
      in if v \<le> dict_get limits name (- 1) then 0 else v)"

text \<open>Per 100.\<close>

definition fat_total_100_r :: "snapshot \<Rightarrow> real" where
  "fat_total_100_r s = round_g (nonsig_zero_g ''Grasa total'' (fat_total_100 s))"

definition sat_fat_100_r :: "snapshot \<Rightarrow> real" where
  "sat_fat_100_r s = round_g (nonsig_zero_g ''Grasa saturada'' (sat_fat_100 s))"

definition carb_100_r :: "snapshot \<Rightarrow> real" where
  "carb_100_r s = round_g (carb_100 s)"

definition sug_total_100_r :: "snapshot \<Rightarrow> real" where
  "sug_total_100_r s = round_g (sug_total_100 s)"

definition sug_added_100_r :: "snapshot \<Rightarrow> real" where
  "sug_added_100_r s = round_g (sug_added_100 s)"

definition fiber_100_r :: "snapshot \<Rightarrow> real" where
  "fiber_100_r s = round_g (fiber_100 s)"

definition protein_100_r :: "snapshot \<Rightarrow> real" where
  "protein_100_r s = round_g (protein_100 s)"

definition sodium_100_mg_r :: "snapshot \<Rightarrow> int" where
  "sodium_100_mg_r s = round_mg (sodium_100_mg s)"

definition mono_fat_100_r :: "snapshot \<Rightarrow> real" where
  "mono_fat_100_r s = round_g (mono_fat_100 s)"

definition poly_fat_100_r :: "snapshot \<Rightarrow> real" where
  "poly_fat_100_r s = round_g (poly_fat_100 s)"

definition trans_fat_100_mg_r :: "snapshot \<Rightarrow> int" where
  "trans_fat_100_mg_r s =
     (let trans_g_100 = (if trans_fat_100_mg s \<noteq> 0 then trans_fat_100_mg s else 0) / 1000;
          trans_g_100 = nonsig_zero_g ''Grasas trans'' trans_g_100
      in round_mg (trans_g_100 * 1000))"

text \<open>Per portion.\<close>

definition fat_total_pp_r :: "snapshot \<Rightarrow> real" where
  "fat_total_pp_r s = round_g (nonsig_zero_g ''Grasa total'' (fat_total_pp s))"

definition sat_fat_pp_r :: "snapshot \<Rightarrow> real" where
  "sat_fat_pp_r s = round_g (nonsig_zero_g ''Grasa saturada'' (sat_fat_pp s))"

definition carb_pp_r :: "snapshot \<Rightarrow> real" where
  "carb_pp_r s = round_g (carb_pp s)"

definition sug_total_pp_r :: "snapshot \<Rightarrow> real" where
  "sug_total_pp_r s = round_g (sug_total_pp s)"

definition sug_added_pp_r :: "snapshot \<Rightarrow> real" where
  "sug_added_pp_r s = round_g (sug_added_pp s)"

definition fiber_pp_r :: "snapshot \<Rightarrow> real" where
  "fiber_pp_r s = round_g (fiber_pp s)"

definition protein_pp_r :: "snapshot \<Rightarrow> real" where
  "protein_pp_r s = round_g (protein_pp s)"

definition sodium_pp_mg_r :: "snapshot \<Rightarrow> int" where
  "sodium_pp_mg_r s = round_mg (sodium_pp_mg s)"

definition mono_fat_pp_r :: "snapshot \<Rightarrow> real" where
  "mono_fat_pp_r s = round_g (mono_fat_pp s)"

definition poly_fat_pp_r :: "snapshot \<Rightarrow> real" where
  "poly_fat_pp_r s = round_g (poly_fat_pp s)"

definition trans_fat_pp_mg_r :: "snapshot \<Rightarrow> int" where
  \<comment> \<open>the zeroing line is commented out in the source for the portion column\<close>
  "trans_fat_pp_mg_r s =
     (let trans_g_pp = (if trans_fat_pp_mg s \<noteq> 0 then trans_fat_pp_mg s else 0) / 1000
      in round_mg (trans_g_pp * 1000))"

definition vm_values_rounded :: "snapshot \<Rightarrow> ((string \<times> string) \<times> real) list" where
  "vm_values_rounded s = map (\<lambda>(k, v100). (k, v100)) (vm_values s)"

definition vm_pp :: "snapshot \<Rightarrow> ((string \<times> string) \<times> real) list" where
  "vm_pp s = map (\<lambda>(k, v100). (k, portion_from_per100 v100 (portion_size s))) (vm_values s)"

definition default_snapshot :: snapshot where
  \<comment> \<open>the values the form shows before the user changes anything\<close>
  "default_snapshot =
     \<lparr> format_choice = Fig1_Vertical, physical_state = Solido_g,
       household_name = ''1 unidad'', household_mass = 40,
       servings_value = 0, servings_label = [],
       selected_macros = macro_order, selected_optional_fats = [],
       selected_vm = mandatory_micros, include_poly = False, in_poly = 0,
       in_fat_total = 13, in_sat_fat = 6, in_trans_fat_mg = 820,
       in_mono_fat = 0, in_poly_fat = 0, in_carb = 31, in_sug_total = 5,
       in_sug_added = 2, in_fiber = 0.8, in_protein = 5, in_sodium_mg = 560,
       in_vm = (\<lambda>_. 0) \<rparr>"

section \<open>Style constants and text metrics\<close>

definition BORDER_W :: int where "BORDER_W = 6"
definition GRID_W :: int where "GRID_W = 3"
definition CELL_PAD_X :: int where "CELL_PAD_X = 22"

datatype font =
    FONT_TITLE | FONT_LABEL | FONT_LABEL_B | FONT_LABEL_EMPH | FONT_LABEL_EMPH_B
  | FONT_SMALL | FONT_SMALL_B | FONT_SMALL_EMPH_B | FONT_MICRO | FONT_MICRO_B

definition FONT_SMALL_size :: int where
  \<comment> \<open>\<^verbatim>\<open>FONT_SMALL = get_font(26, bold=False)\<close>\<close>
  "FONT_SMALL_size = 26"

text \<open>
  The drawing context is an external collaborator. Of it the layout code reads only
  \<^verbatim>\<open>textbbox((0,0), text, font=font)\<close>, so a context is embedded as that function.
\<close>

type_synonym draw = "string \<Rightarrow> font \<Rightarrow> int \<times> int \<times> int \<times> int"

definition measure_text :: "draw \<Rightarrow> string \<Rightarrow> font \<Rightarrow> int \<times> int" where
  "measure_text d text font =
     (case d text font of (b0, b1, b2, b3) \<Rightarrow> (b2 - b0, b3 - b1))"

definition column_labels :: "snapshot \<Rightarrow> string \<times> string" where
  "column_labels s =
     (if \<not> is_liquid s then ''Por 100 g'' else ''Por 100 mL'',
      ''Por porci'' @ o_acute @ ''n'')"

section \<open>Column solver of the vertical formats\<close>

definition label_font :: "string \<Rightarrow> font" where
  \<comment> \<open>the larger font only for an emphasised nutrient\<close>
  "label_font label =
     (if strip label \<in> set [''Grasa saturada'', ''Grasas trans'', Azucares_anadidos, ''Sodio'']
      then FONT_LABEL_EMPH_B else FONT_LABEL)"

definition name_w_step :: "draw \<Rightarrow> int \<Rightarrow> string \<times> int \<Rightarrow> int" where
  \<comment> \<open>body of the loop over \<^verbatim>\<open>labels_with_indent\<close>\<close>
  "name_w_step d name_w_max li =
     (case li of (label, indent) \<Rightarrow>
        let INDENT_PX = 28;
            font = label_font label;
            w = fst (measure_text d (strip label) font);
            total_w = w + indent * INDENT_PX
        in if total_w > name_w_max then total_w else name_w_max)"

definition value_w_step :: "draw \<Rightarrow> int \<Rightarrow> string \<Rightarrow> int" where
  \<comment> \<open>body of each iteration over \<^verbatim>\<open>v100_list\<close> and \<^verbatim>\<open>vpp_list\<close>\<close>
  "value_w_step d w_max t =
     (let w = fst (measure_text d t FONT_LABEL) in if w > w_max then w else w_max)"

definition compute_cols_vertical ::
  "snapshot \<Rightarrow> draw \<Rightarrow> (string \<times> int) list \<Rightarrow> string list \<Rightarrow> string list \<Rightarrow> int
   \<Rightarrow> int list \<times> int" where
  "compute_cols_vertical s d labels_with_indent v100_list vpp_list W =
     (let name_w_max = foldl (name_w_step d) 0 labels_with_indent;
          v100_w_max = foldl (value_w_step d) 0 v100_list;
          vpp_w_max = foldl (value_w_step d) 0 vpp_list;
          col100_w = fst (measure_text d (fst (column_labels s)) FONT_SMALL_B);
          colpp_w = fst (measure_text d (snd (column_labels s)) FONT_SMALL_B);
          final_name_width = name_w_max + 15 + GRID_W;
          name_to_values_gap = 35;
          values_gap = 20;
          right_margin = 15;
          x0 = BORDER_W + CELL_PAD_X;
          x1 = x0 + final_name_width + name_to_values_gap;
          col100_width = max v100_w_max col100_w + 15;
          x2 = x1 + col100_width + values_gap;
          colpp_width = max vpp_w_max colpp_w + 4;
          x3 = x2 + colpp_width + right_margin;
          total_width_needed = x3
      in ([x0, x1, x2, x3],
          if total_width_needed > W then total_width_needed + BORDER_W * 2 else W))"

section \<open>Rich text wrapper of the linear format\<close>

datatype flag = Emph | Bold | PyNone | PyFalse | PyTrue

type_synonym token = "string \<times> flag"

definition token_font :: "flag \<Rightarrow> font" where
  \<comment> \<open>the \<^verbatim>\<open>if b == "emph" ... elif b == "bold" ... else\<close> chain\<close>
  "token_font b =
     (if b = Emph then FONT_SMALL_EMPH_B
      else if b = Bold then FONT_SMALL_B
      else FONT_SMALL)"

definition line_width :: "draw \<Rightarrow> token list \<Rightarrow> int" where
  \<comment> \<open>the loop of \<^verbatim>\<open>measure_tokens\<close>: each token measured in the font of its own flag\<close>
  "line_width d tokens_list =
     foldl (\<lambda>w_total (t, b). w_total + fst (measure_text d t (token_font b))) 0 tokens_list"

definition measure_tokens :: "draw \<Rightarrow> int \<Rightarrow> int option \<Rightarrow> token list \<Rightarrow> bool \<Rightarrow> int" where
  "measure_tokens d x first_line_x tokens_list is_first_line =
     (let w_total = line_width d tokens_list
      in case first_line_x of
           Some flx \<Rightarrow> if is_first_line then w_total + (flx - x) else w_total
         | None \<Rightarrow> w_total)"

fun build_loop ::
  "draw \<Rightarrow> int \<Rightarrow> int option \<Rightarrow> int \<Rightarrow> token list \<Rightarrow> token list list \<times> token list
   \<Rightarrow> token list list \<times> token list" where
  "build_loop d x first_line_x max_w [] (lines, current) = (lines, current)"
| "build_loop d x first_line_x max_w ((t, b) # tokens) (lines, current) =
     (if t = [] then build_loop d x first_line_x max_w tokens (lines, current)
      else
        let is_first = (length lines = 0);
            tentative = current @ [(t, b)]
        in if measure_tokens d x first_line_x tentative is_first \<le> max_w
           then build_loop d x first_line_x max_w tokens (lines, tentative)
           else build_loop d x first_line_x max_w tokens
                  (if current \<noteq> [] then lines @ [current] else lines, [(t, b)]))"

definition build_lines :: "draw \<Rightarrow> int \<Rightarrow> int option \<Rightarrow> int \<Rightarrow> token list \<Rightarrow> token list list" where
  \<comment> \<open>the line-building half of \<^verbatim>\<open>draw_rich_wrapped_text\<close>\<close>
  "build_lines d x first_line_x max_w tokens =
     (case build_loop d x first_line_x max_w tokens ([], []) of
        (lines, current) \<Rightarrow> if current \<noteq> [] then lines @ [current] else lines)"

datatype draw_op = DrawText int int string font | DrawRectangle int int int int int

fun render_line :: "draw \<Rightarrow> int \<Rightarrow> int \<Rightarrow> token list \<Rightarrow> draw_op list" where
  "render_line d cx y [] = []"
| "render_line d cx y ((t, b) # line) =
     DrawText cx y t (token_font b)
     # render_line d (cx + fst (measure_text d t (token_font b))) y line"

fun render_lines ::
  "draw \<Rightarrow> int \<Rightarrow> int option \<Rightarrow> int \<Rightarrow> nat \<Rightarrow> int \<Rightarrow> token list list \<Rightarrow> draw_op list \<times> int" where
  "render_lines d x first_line_x line_gap i y [] = ([], y)"
| "render_lines d x first_line_x line_gap i y (line # lines) =
     (let cx = (case first_line_x of Some flx \<Rightarrow> if i = 0 then flx else x | None \<Rightarrow> x);
          ops = render_line d cx y line;
          rest = render_lines d x first_line_x line_gap (Suc i) (y + FONT_SMALL_size + line_gap) lines
      in (ops @ fst rest, snd rest))"

definition first_line_offset :: "int \<Rightarrow> int option \<Rightarrow> int" where
  \<comment> \<open>what \<^verbatim>\<open>measure_tokens\<close> adds on the first line\<close>
  "first_line_offset x first_line_x = (case first_line_x of Some flx \<Rightarrow> flx - x | None \<Rightarrow> 0)"

definition line_fits :: "draw \<Rightarrow> int \<Rightarrow> int option \<Rightarrow> int \<Rightarrow> nat \<Rightarrow> token list \<Rightarrow> bool" where
  \<comment> \<open>line number \<open>i\<close> holds one token, or its measure is within \<open>max_w\<close>\<close>
  "line_fits d x first_line_x max_w i line =
     (length line \<le> 1 \<or> measure_tokens d x first_line_x line (i = 0) \<le> max_w)"

definition line_x :: "int \<Rightarrow> int option \<Rightarrow> nat \<Rightarrow> int" where
  \<comment> \<open>where line number \<open>i\<close> starts: \<^verbatim>\<open>first_line_x if (i == 0 and first_line_x is not None) else x\<close>\<close>
  "line_x x first_line_x i = (case first_line_x of Some flx \<Rightarrow> if i = 0 then flx else x | None \<Rightarrow> x)"

definition line_y :: "int \<Rightarrow> int \<Rightarrow> nat \<Rightarrow> int" where
  \<comment> \<open>the height of line number \<open>i\<close>: \<open>y\<close> advances by \<^verbatim>\<open>FONT_SMALL.size + line_gap\<close> a line\<close>
  "line_y y line_gap i = y + int i * (FONT_SMALL_size + line_gap)"

definition closed_late :: "draw \<Rightarrow> int \<Rightarrow> int option \<Rightarrow> int \<Rightarrow> token list list \<Rightarrow> bool" where
  \<comment> \<open>every line but the last was closed because the first token of the next line did
      not fit on it\<close>
  "closed_late d x first_line_x max_w lines =
     (\<forall>i. Suc i < length lines \<longrightarrow>
        max_w < measure_tokens d x first_line_x (lines ! i @ [hd (lines ! Suc i)]) (i = 0))"

definition draw_rich_wrapped_text ::
  "draw \<Rightarrow> int \<Rightarrow> int \<Rightarrow> token list \<Rightarrow> font \<Rightarrow> font \<Rightarrow> int \<Rightarrow> int \<Rightarrow> int option
   \<Rightarrow> draw_op list \<times> int" where
  \<comment> \<open>the one definition of this name (the fragments around it sit behind a
      \<^verbatim>\<open>return\<close>); the result is the text it draws and the new \<open>y\<close>\<close>
  "draw_rich_wrapped_text d x y tokens font_reg font_bold max_w line_gap first_line_x =
     render_lines d x first_line_x line_gap 0 y (build_lines d x first_line_x max_w tokens)"

section \<open>Linear format\<close>

datatype error = NameError string

record image =
  img_width :: int
  img_height :: int
  img_ops :: "draw_op list"

definition tokens_item :: "string \<Rightarrow> string \<Rightarrow> string \<Rightarrow> bool \<Rightarrow> bool \<Rightarrow> token list" where
  "tokens_item label val unit bold emph =
     (let flag = (if emph then Emph else if bold then Bold else PyNone);
          toks = [(label, flag), ('' '', flag), (val, flag)]
      in if unit \<noteq> [] then toks @ [('' '' @ unit, flag)] else toks)"

definition unbound_global :: "string \<Rightarrow> error + real" where
  \<comment> \<open>reading a global name that no statement of the module assigns\<close>
  "unbound_global name = Inl (NameError name)"

definition item_if :: "bool \<Rightarrow> token list \<Rightarrow> token list" where
  "item_if c toks = (if c then toks @ [('', '', PyFalse)] else [])"

definition poly_item :: "snapshot \<Rightarrow> string \<Rightarrow> error + token list" where
  \<comment> \<open>\<^verbatim>\<open>if include_poly: tokens += tokens_item("Polialcoholes", f"{fmt_one_decimal(NAME)}", "g") + [(", ", False)]\<close>
      with \<^verbatim>\<open>NAME\<close> one of \<^verbatim>\<open>poly_100_r\<close>, \<^verbatim>\<open>poly_pp_r\<close>: neither is assigned anywhere\<close>
  "poly_item s name =
     (if include_poly s
      then (case unbound_global name of
              Inl e \<Rightarrow> Inl e
            | Inr v \<Rightarrow> Inr (tokens_item ''Polialcoholes'' (fmt_one_decimal (Some v)) ''g'' False False
                            @ [('', '', PyFalse)]))
      else Inr [])"

definition micro_items :: "snapshot \<Rightarrow> ((string \<times> string) \<times> real) list \<Rightarrow> token list" where
  \<comment> \<open>the loop over the five mandatory micronutrients\<close>
  "micro_items s values =
     concat (map (\<lambda>name.
        if name \<in> set (selected_vm s)
        then (let unit = vm_unit name;
                  v = dict_get values (name, unit) 0
              in [(name @ '' '' @ fmt_micro_value name unit (Some v), PyFalse), ('', '', PyFalse)])
        else [])
       [''Vitamina A'', ''Vitamina D'', ''Hierro'', ''Calcio'', ''Zinc''])"

definition fig5_tokens_100 :: "snapshot \<Rightarrow> error + token list" where
  "fig5_tokens_100 s =
     (let sel = (\<lambda>n. n \<in> set (selected_macros s));
          before =
            tokens_item Calorias (fmt_kcal (kcal_100 s)) ''kcal'' False True @ [('', '', PyFalse)]
            @ item_if (sel ''Grasa total'')
                (tokens_item ''Grasa total'' (fmt_one_decimal (Some (fat_total_100_r s))) ''g'' False False)
            @ item_if (sel ''Grasa saturada'')
                (tokens_item ''Grasa saturada'' (fmt_one_decimal (Some (sat_fat_100_r s))) ''g'' False True)
            @ item_if (sel ''Grasas trans'')
                (tokens_item ''Grasas trans'' (fmt_int (Some (of_int (trans_fat_100_mg_r s)))) ''mg'' False True)
            @ item_if (sel ''Carbohidratos totales'')
                (tokens_item ''Carbohidratos totales'' (fmt_carbs_rule (Some (carb_100_r s))) ''g'' False False)
            @ item_if (sel ''Fibra dietaria'')
                (tokens_item ''Fibra dietaria'' (fmt_one_decimal (Some (fiber_100_r s))) ''g'' False False)
      in case poly_item s ''poly_100_r'' of
           Inl e \<Rightarrow> Inl e
         | Inr poly \<Rightarrow>
             Inr (before @ poly
               @ item_if (sel Azucares_totales)
                   (tokens_item Azucares_totales (fmt_one_decimal (Some (sug_total_100_r s))) ''g'' False False)
               @ item_if (sel Azucares_anadidos)
                   (tokens_item Azucares_anadidos (fmt_one_decimal (Some (sug_added_100_r s))) ''g'' False True)
               @ item_if (sel Proteina)
                   (tokens_item Proteina (fmt_one_decimal (Some (protein_100_r s))) ''g'' False False)
               @ item_if (sel ''Sodio'')
                   (tokens_item ''Sodio'' (fmt_int (Some (of_int (sodium_100_mg_r s)))) ''mg'' False True)
               @ micro_items s (vm_values_rounded s)))"

definition fig5_tokens_pp :: "snapshot \<Rightarrow> error + token list" where
  "fig5_tokens_pp s =
     (let sel = (\<lambda>n. n \<in> set (selected_macros s));
          before =
            [(''Tama'' @ n_tilde @ ''o de porci'' @ o_acute @ ''n:'', PyTrue),
             ('' '', PyFalse),
             (household_name s @ '' ('' @ show_int (py_round (portion_size s)) @ '' ''
                @ portion_unit s @ '')'', PyFalse),
             ('', '', PyFalse)]
            @ [(''N'' @ u_acute @ ''mero de porciones por envase:'', PyTrue),
               ('' '', PyFalse),
               (servings_display s, PyFalse),
               ('', '', PyFalse)]
            @ tokens_item Calorias (fmt_kcal (kcal_pp s)) ''kcal'' False True @ [('', '', PyFalse)]
            @ item_if (sel ''Grasa total'')
                (tokens_item ''Grasa total'' (fmt_one_decimal (Some (fat_total_pp_r s))) ''g'' False False)
            @ item_if (sel ''Grasa saturada'')
                (tokens_item ''Grasa saturada'' (fmt_one_decimal (Some (sat_fat_pp_r s))) ''g'' False True)
            @ item_if (sel ''Grasas trans'')
                (tokens_item ''Grasas trans'' (fmt_int (Some (of_int (trans_fat_pp_mg_r s)))) ''mg'' False True)
            @ item_if (sel ''Carbohidratos totales'')
                (tokens_item ''Carbohidratos totales'' (fmt_carbs_rule (Some (carb_pp_r s))) ''g'' False False)
            @ item_if (sel ''Fibra dietaria'')
                (tokens_item ''Fibra dietaria'' (fmt_one_decimal (Some (fiber_pp_r s))) ''g'' False False)
      in case poly_item s ''poly_pp_r'' of
           Inl e \<Rightarrow> Inl e
         | Inr poly \<Rightarrow>
             let toks = before @ poly
                   @ item_if (sel Azucares_totales)
                       (tokens_item Azucares_totales (fmt_one_decimal (Some (sug_total_pp_r s))) ''g'' False False)
                   @ item_if (sel Azucares_anadidos)
                       (tokens_item Azucares_anadidos (fmt_one_decimal (Some (sug_added_pp_r s))) ''g'' False True)
                   @ item_if (sel Proteina)
                       (tokens_item Proteina (fmt_one_decimal (Some (protein_pp_r s))) ''g'' False False)
                   @ item_if (sel ''Sodio'')
                       (tokens_item ''Sodio'' (fmt_int (Some (of_int (sodium_pp_mg_r s)))) ''mg'' False True)
                   @ micro_items s (vm_pp s);
                 toks = (if toks \<noteq> [] \<and> last toks = ('', '', PyFalse) then butlast toks else toks)
             in Inr (if strip (footnote_text s) \<noteq> []
                     then toks @ [(''. '', PyFalse),
                                  (''No es fuente significativa de '', PyFalse),
                                  (remove_all ''No es fuente significativa de '' (footnote_text s), PyFalse)]
                     else toks))"

definition draw_fig5 :: "draw \<Rightarrow> snapshot \<Rightarrow> error + image" where
  "draw_fig5 d s =
     (let W = 1700;
          x = BORDER_W + CELL_PAD_X;
          y = BORDER_W + 20;
          max_line_width = W - 2 * BORDER_W - 2 * CELL_PAD_X;
          label_main = Informacion_nutricional;
          label_unit = '' ('' @ (if is_liquid s then ''100 mL'' else ''100 g'') @ ''):'';
          w_main = fst (measure_text d label_main FONT_SMALL_B);
          head_100 = [DrawText x y label_main FONT_SMALL_B,
                      DrawText (x + w_main) y label_unit FONT_SMALL];
          w_unit = fst (measure_text d label_unit FONT_SMALL);
          x_content = x + w_main + w_unit + 10
      in case fig5_tokens_100 s of
           Inl e \<Rightarrow> Inl e
         | Inr tokens_100 \<Rightarrow>
             let body_100 = draw_rich_wrapped_text d x y tokens_100 FONT_SMALL FONT_SMALL_B
                              max_line_width 4 (Some x_content);
                 y = snd body_100;
                 label_unit = '' (porci'' @ o_acute @ ''n):'';
                 head_pp = [DrawText x y label_main FONT_SMALL_B,
                            DrawText (x + w_main) y label_unit FONT_SMALL];
                 w_unit = fst (measure_text d label_unit FONT_SMALL);
                 x_content_pp = x + w_main + w_unit + 10
             in case fig5_tokens_pp s of
                  Inl e \<Rightarrow> Inl e
                | Inr tokens_pp \<Rightarrow>
                    let body_pp = draw_rich_wrapped_text d x y tokens_pp FONT_SMALL FONT_SMALL_B
                                    max_line_width 4 (Some x_content_pp);
                        y = snd body_pp;
                        H_final = y + BORDER_W + 10
                    in Inr \<lparr> img_width = W, img_height = H_final,
                             img_ops = head_100 @ fst body_100 @ head_pp @ fst body_pp
                                       @ [DrawRectangle 0 0 (W - 1) (H_final - 1) BORDER_W] \<rparr>)"

definition draw_10px :: draw where
  \<comment> \<open>a sample text-metrics provider: 10 pixels a byte, 20 pixels high\<close>
  "draw_10px text font = (0, 0, 10 * int (length text), 20)"

section \<open>\<open>round_g\<close> on Python floats\<close>

text \<open>
  The sections above read the module's arithmetic exactly. Here \<^verbatim>\<open>round_g\<close> gets the
  semantics of Python's floats: a float is a finite double, an infinity or NaN; a decimal
  result is converted to the nearest double, ties to the even significand; conversions
  that Python refuses raise.
\<close>

datatype pyfloat = Fin real | PosInf | NegInf | NaN

datatype py_exception = OverflowError | ValueError

definition double_exponent :: "real \<Rightarrow> int" where
  \<comment> \<open>the binary exponent of a non-zero \<open>x\<close>, held at that of the subnormal doubles\<close>
  "double_exponent x = max \<lfloor>log 2 \<bar>x\<bar>\<rfloor> (- 1022)"

definition double_ulp :: "real \<Rightarrow> real" where
  \<comment> \<open>the spacing of the doubles around \<open>x\<close>: 52 fraction bits\<close>
  "double_ulp x = 2 powi (double_exponent x - 52)"

definition nearest_double :: "real \<Rightarrow> real" where
  "nearest_double x =
     (if x = 0 then 0 else of_int (py_round (x / double_ulp x)) * double_ulp x)"

definition is_double :: "real \<Rightarrow> bool" where
  \<comment> \<open>the value of a finite double\<close>
  "is_double a = (nearest_double a = a \<and> \<bar>a\<bar> < 2 ^ 1024)"

definition to_float :: "real \<Rightarrow> py_exception + pyfloat" where
  \<comment> \<open>the float nearest to a decimal or an integer; \<^verbatim>\<open>OverflowError\<close> beyond the doubles\<close>
  "to_float x =
     (if \<bar>nearest_double x\<bar> < 2 ^ 1024 then Inr (Fin (nearest_double x))
      else Inl OverflowError)"

definition float_abs :: "pyfloat \<Rightarrow> pyfloat" where
  "float_abs v = (case v of Fin a \<Rightarrow> Fin \<bar>a\<bar> | PosInf \<Rightarrow> PosInf | NegInf \<Rightarrow> PosInf | NaN \<Rightarrow> NaN)"

definition float_ge :: "pyfloat \<Rightarrow> real \<Rightarrow> bool" where
  \<comment> \<open>\<^verbatim>\<open>v >= c\<close> for a finite \<open>c\<close>: every comparison with NaN is false\<close>
  "float_ge v c = (case v of Fin a \<Rightarrow> a \<ge> c | PosInf \<Rightarrow> True | NegInf \<Rightarrow> False | NaN \<Rightarrow> False)"

definition float_eq :: "pyfloat \<Rightarrow> pyfloat \<Rightarrow> bool" where
  \<comment> \<open>\<^verbatim>\<open>v == w\<close>: NaN equals nothing, itself included\<close>
  "float_eq v w = (v \<noteq> NaN \<and> w \<noteq> NaN \<and> v = w)"

definition float_round_nd :: "pyfloat \<Rightarrow> nat \<Rightarrow> py_exception + pyfloat" where
  \<comment> \<open>\<^verbatim>\<open>round(v, n)\<close>: infinities and NaN round to themselves; a finite value is rounded
      in decimal from its exact value, then converted back\<close>
  "float_round_nd v n =
     (case v of
        Fin a \<Rightarrow> to_float (of_int (py_round (a * 10 ^ n)) / 10 ^ n)
      | _ \<Rightarrow> Inr v)"

definition float_int :: "pyfloat \<Rightarrow> py_exception + int" where
  \<comment> \<open>\<^verbatim>\<open>int(v)\<close>\<close>
  "float_int v =
     (case v of
        Fin a \<Rightarrow> Inr (py_int a)
      | PosInf \<Rightarrow> Inl OverflowError
      | NegInf \<Rightarrow> Inl OverflowError
      | NaN \<Rightarrow> Inl ValueError)"

definition round_g_float :: "pyfloat \<Rightarrow> py_exception + pyfloat" where
  "round_g_float v =
     (let av = float_abs v
      in if float_ge av 100
         then (case float_round_nd v 0 of
                 Inl e \<Rightarrow> Inl e
               | Inr r \<Rightarrow> (case float_int r of
                             Inl e \<Rightarrow> Inl e
                           | Inr n \<Rightarrow> to_float (of_int n)))
         else float_round_nd v 1)"

section \<open>Rounding functions\<close>

lemma py_round_lower: "v - 1 / 2 \<le> of_int (py_round v)"
  unfolding py_round_def Let_def by (auto; linarith)

lemma py_round_upper: "of_int (py_round v) \<le> v + 1 / 2"
  unfolding py_round_def Let_def by (auto; linarith)

lemma py_round_dist: "\<bar>of_int (py_round v) - v\<bar> \<le> 1 / 2"
  using py_round_lower [of v] py_round_upper [of v] by linarith

lemma py_round_of_int [simp]: "py_round (of_int k) = k"
  unfolding py_round_def Let_def by simp

lemma py_int_of_int [simp]: "py_int (of_int k) = k"
  unfolding py_int_def by simp

lemma py_int_numeral [simp]: "py_int (numeral n) = numeral n"
  using py_int_of_int [of "numeral n"] by simp

lemma py_int_neg_numeral [simp]: "py_int (- numeral n) = - numeral n"
  using py_int_of_int [of "- numeral n"] by simp

lemma py_round_numeral [simp]: "py_round (numeral n) = numeral n"
  using py_round_of_int [of "numeral n"] by simp

lemma py_round_neg_numeral [simp]: "py_round (- numeral n) = - numeral n"
  using py_round_of_int [of "- numeral n"] by simp

lemma py_round_mono_int: "of_int k \<le> v \<Longrightarrow> k \<le> py_round v"
proof -
  assume h: "of_int k \<le> v"
  then have "k \<le> \<lfloor>v\<rfloor>" by (simp add: le_floor_iff)
  moreover have "\<lfloor>v\<rfloor> \<le> py_round v"
    unfolding py_round_def Let_def by auto
  ultimately show ?thesis by linarith
qed

lemma py_round_antimono_int: "v \<le> of_int k \<Longrightarrow> py_round v \<le> k"
proof -
  assume h: "v \<le> of_int k"
  show ?thesis
  proof (cases "v = of_int k")
    case True
    then show ?thesis by simp
  next
    case False
    with h have "v < of_int k" by simp
    then have "\<lfloor>v\<rfloor> < k" by (simp add: floor_less_iff)
    moreover have "py_round v \<le> \<lfloor>v\<rfloor> + 1"
      unfolding py_round_def Let_def by auto
    ultimately show ?thesis by linarith
  qed
qed

lemma py_round_abs_ge: "of_int k \<le> \<bar>v\<bar> \<Longrightarrow> 0 \<le> k \<Longrightarrow> k \<le> \<bar>py_round v\<bar>"
proof -
  assume h: "of_int k \<le> \<bar>v\<bar>" and k: "0 \<le> k"
  show ?thesis
  proof (cases "0 \<le> v")
    case True
    with h have "of_int k \<le> v" by simp
    then have "k \<le> py_round v" by (rule py_round_mono_int)
    then show ?thesis by linarith
  next
    case False
    with h have "v \<le> of_int (- k)" by simp
    then have "py_round v \<le> - k" by (rule py_round_antimono_int)
    then show ?thesis by linarith
  qed
qed

text \<open>
  C4. For every numeric input \<open>v\<close>, \<open>round_kcal v\<close> is 0 exactly when \<open>v \<le> 4\<close>, and
  every \<open>v > 4\<close> is returned unchanged.
\<close>

theorem round_kcal_zero_iff_le_4:
  "(round_kcal (Some v) = 0 \<longleftrightarrow> v \<le> 4) \<and> (4 < v \<longrightarrow> round_kcal (Some v) = v)"
  unfolding round_kcal_def by auto

theorem round_kcal_zero_iff_le_4_witness:
  "(round_kcal (Some 4) = 0 \<longleftrightarrow> (4::real) \<le> 4) \<and> (4::real) < 261 \<and> round_kcal (Some 261) = 261
   \<and> round_kcal (Some 4) = 0"
  using round_kcal_zero_iff_le_4 [of 4] round_kcal_zero_iff_le_4 [of 261] by simp

lemma round_g_big: "100 \<le> \<bar>v\<bar> \<Longrightarrow> round_g v = of_int (py_round v)"
  unfolding round_g_def py_round_nd_def Let_def by simp

lemma round_g_small: "\<bar>v\<bar> < 100 \<Longrightarrow> round_g v = of_int (py_round (v * 10)) / 10"
  unfolding round_g_def py_round_nd_def Let_def by simp

text \<open>
  C10. For every real input \<open>v\<close>, \<open>round_mg v\<close> is either 0 or an integer of at least 5:
  every input below 5 gives 0 and every input from 5 on rounds to an integer of at least 5.
\<close>

theorem round_mg_zero_or_ge_5:
  "(round_mg v = 0 \<or> 5 \<le> round_mg v)
   \<and> (v < 5 \<longrightarrow> round_mg v = 0) \<and> (5 \<le> v \<longrightarrow> 5 \<le> round_mg v)"
proof -
  have "5 \<le> py_round v" if "5 \<le> v"
    using that py_round_mono_int [of 5 v] by simp
  then show ?thesis unfolding round_mg_def by auto
qed

theorem round_mg_zero_or_ge_5_witness:
  "(4.9::real) < 5 \<and> round_mg 4.9 = 0 \<and> (5::real) \<le> 5.5 \<and> round_mg 5.5 = 6
   \<and> 5 \<le> round_mg 5.5"
  using round_mg_zero_or_ge_5 [of "4.9"] round_mg_zero_or_ge_5 [of "5.5"]
  by (simp add: round_mg_def py_round_def Let_def)

section \<open>\<open>round_g\<close> on floats: doubles, infinities and NaN\<close>

subsection \<open>Doubles\<close>

lemma pow2_powr: "(2::real) powr real_of_int k = 2 powi k"
  by (rule powr_real_of_int') simp_all

lemma floor_log2_iff:
  assumes "x \<noteq> 0"
  shows "(\<lfloor>log 2 \<bar>x\<bar>\<rfloor> = e) = (2 powi e \<le> \<bar>x\<bar> \<and> \<bar>x\<bar> < 2 powi (e + 1))"
proof -
  have pos: "0 < \<bar>x\<bar>" using assms by simp
  have two: "1 < (2::real)" by simp
  show ?thesis
    using floor_log_eq_powr_iff [OF pos two, of e] by (simp only: pow2_powr)
qed

lemma binade:
  assumes "x \<noteq> 0"
  shows "2 powi \<lfloor>log 2 \<bar>x\<bar>\<rfloor> \<le> \<bar>x\<bar>" and "\<bar>x\<bar> < 2 powi (\<lfloor>log 2 \<bar>x\<bar>\<rfloor> + 1)"
  using floor_log2_iff [OF assms, of "\<lfloor>log 2 \<bar>x\<bar>\<rfloor>"] by blast+

lemma binade_unique:
  assumes "x \<noteq> 0" and "2 powi e \<le> \<bar>x\<bar>" and "\<bar>x\<bar> < 2 powi (e + 1)"
  shows "\<lfloor>log 2 \<bar>x\<bar>\<rfloor> = e"
  using floor_log2_iff [OF assms(1), of e] assms(2,3) by blast

lemma double_ulp_pos: "0 < double_ulp x"
  by (simp add: double_ulp_def zero_less_power_int)

lemma nearest_double_error: "\<bar>nearest_double x - x\<bar> \<le> double_ulp x / 2"
proof (cases "x = 0")
  case True
  then show ?thesis using double_ulp_pos [of x] by (simp add: nearest_double_def)
next
  case False
  define u where "u = double_ulp x"
  have u: "0 < u" unfolding u_def by (rule double_ulp_pos)
  have "\<bar>of_int (py_round (x / u)) - x / u\<bar> \<le> 1 / 2" by (rule py_round_dist)
  then have "\<bar>of_int (py_round (x / u)) - x / u\<bar> * u \<le> 1 / 2 * u"
    using u by (intro mult_right_mono) simp_all
  moreover have "\<bar>of_int (py_round (x / u)) - x / u\<bar> * u
                   = \<bar>(of_int (py_round (x / u)) - x / u) * u\<bar>"
    using u by (simp add: abs_mult)
  moreover have "(of_int (py_round (x / u)) - x / u) * u = of_int (py_round (x / u)) * u - x"
    using u by (simp add: field_simps)
  ultimately show ?thesis using False by (simp add: nearest_double_def u_def)
qed

lemma double_ulp_le:
  assumes "2 powi (- 1022) \<le> \<bar>x\<bar>"
  shows "double_ulp x \<le> \<bar>x\<bar> / 2 ^ 52"
proof -
  have nz: "x \<noteq> 0"
  proof
    assume "x = 0"
    with assms have "(2::real) powi (- 1022) \<le> 0" by simp
    moreover have "(0::real) < 2 powi (- 1022)" by (rule zero_less_power_int) simp
    ultimately show False by linarith
  qed
  have "- 1022 \<le> \<lfloor>log 2 \<bar>x\<bar>\<rfloor>"
  proof (rule ccontr)
    assume "\<not> - 1022 \<le> \<lfloor>log 2 \<bar>x\<bar>\<rfloor>"
    then have "\<lfloor>log 2 \<bar>x\<bar>\<rfloor> + 1 \<le> - 1022" by linarith
    then have "(2::real) powi (\<lfloor>log 2 \<bar>x\<bar>\<rfloor> + 1) \<le> 2 powi (- 1022)"
      by (intro power_int_increasing) simp_all
    with binade(2) [OF nz] assms show False by linarith
  qed
  then have e: "double_exponent x = \<lfloor>log 2 \<bar>x\<bar>\<rfloor>" by (simp add: double_exponent_def)
  have "double_ulp x = 2 powi \<lfloor>log 2 \<bar>x\<bar>\<rfloor> / 2 ^ 52"
    by (simp add: double_ulp_def e power_int_diff)
  also have "\<dots> \<le> \<bar>x\<bar> / 2 ^ 52"
    using binade(1) [OF nz] by (intro divide_right_mono) simp_all
  finally show ?thesis .
qed

lemma nearest_double_of_int:
  assumes "\<bar>n\<bar> \<le> 2 ^ 53"
  shows "nearest_double (of_int n) = of_int n"
proof (cases "n = 0")
  case True
  then show ?thesis by (simp add: nearest_double_def)
next
  case False
  define x :: real where "x = of_int n"
  define e where "e = \<lfloor>log 2 \<bar>x\<bar>\<rfloor>"
  have nz: "x \<noteq> 0" using False by (simp add: x_def)
  have lo: "1 \<le> \<bar>x\<bar>" using False by (simp add: x_def)
  have hi: "\<bar>x\<bar> \<le> 2 ^ 53"
  proof -
    have "real_of_int \<bar>n\<bar> \<le> real_of_int (2 ^ 53)" using assms by (intro of_int_le_iff [THEN iffD2])
    then show ?thesis by (simp add: x_def)
  qed
  have e0: "0 \<le> e"
  proof (rule ccontr)
    assume "\<not> 0 \<le> e"
    then have "e + 1 \<le> 0" by simp
    then have "(2::real) powi (e + 1) \<le> 2 powi 0" by (intro power_int_increasing) simp_all
    with binade(2) [OF nz] lo show False by (simp add: e_def)
  qed
  have e53: "e \<le> 53"
  proof (rule ccontr)
    assume "\<not> e \<le> 53"
    then have "54 \<le> e" by simp
    then have "(2::real) powi 54 \<le> 2 powi e" by (intro power_int_increasing) simp_all
    with binade(1) [OF nz] hi show False by (simp add: e_def)
  qed
  have de: "double_exponent x = e" using e0 by (simp add: double_exponent_def e_def)
  have ulp: "double_ulp x = 2 powi (e - 52)" by (simp add: double_ulp_def de)
  show ?thesis
  proof (cases "e \<le> 52")
    case True
    define k where "k = nat (52 - e)"
    have "(2::real) powi (e - 52) = 1 / 2 powi (52 - e)"
      using power_int_minus_divide [of "2::real" "52 - e"] by simp
    also have "(2::real) powi (52 - e) = 2 ^ k"
      using True by (simp add: k_def power_int_def)
    finally have u: "double_ulp x = 1 / 2 ^ k" by (simp add: ulp)
    have q: "x / double_ulp x = of_int (n * 2 ^ k)" unfolding u by (simp add: x_def)
    have r: "py_round (x / double_ulp x) = n * 2 ^ k" unfolding q by (rule py_round_of_int)
    have "nearest_double x = of_int (py_round (x / double_ulp x)) * double_ulp x"
      using nz by (simp add: nearest_double_def)
    also have "\<dots> = of_int (n * 2 ^ k) * double_ulp x" by (simp only: r)
    also have "\<dots> = of_int (n * 2 ^ k) * (1 / 2 ^ k)" by (simp only: u)
    also have "\<dots> = x" by (simp add: x_def)
    finally show ?thesis by (simp add: x_def)
  next
    case False
    with e53 have e: "e = 53" by simp
    have "(2::real) ^ 53 \<le> \<bar>x\<bar>" using binade(1) [OF nz] by (simp add: e_def [symmetric] e)
    with hi have ax: "\<bar>x\<bar> = 2 ^ 53" by linarith
    have u: "double_ulp x = 2" by (simp add: ulp e)
    have "x = 2 ^ 53 \<or> x = - (2 ^ 53)" using ax by linarith
    then show ?thesis
    proof
      assume p: "x = 2 ^ 53"
      have q: "x / double_ulp x = of_int (2 ^ 52)" unfolding u by (simp add: p)
      have r: "py_round (x / double_ulp x) = 2 ^ 52" unfolding q by (rule py_round_of_int)
      have "nearest_double x = of_int (py_round (x / double_ulp x)) * double_ulp x"
        using nz by (simp add: nearest_double_def)
      also have "\<dots> = of_int (2 ^ 52) * double_ulp x" by (simp only: r)
      also have "\<dots> = of_int (2 ^ 52) * 2" by (simp only: u)
      also have "\<dots> = x" by (simp add: p)
      finally show ?thesis by (simp add: x_def)
    next
      assume p: "x = - (2 ^ 53)"
      have q: "x / double_ulp x = of_int (- (2 ^ 52))" unfolding u by (simp add: p)
      have r: "py_round (x / double_ulp x) = - (2 ^ 52)" unfolding q by (rule py_round_of_int)
      have "nearest_double x = of_int (py_round (x / double_ulp x)) * double_ulp x"
        using nz by (simp add: nearest_double_def)
      also have "\<dots> = of_int (- (2 ^ 52)) * double_ulp x" by (simp only: r)
      also have "\<dots> = of_int (- (2 ^ 52)) * 2" by (simp only: u)
      also have "\<dots> = x" by (simp add: p)
      finally show ?thesis by (simp add: x_def)
    qed
  qed
qed

lemma double_large_is_int:
  assumes "is_double a" and "2 ^ 52 \<le> \<bar>a\<bar>"
  shows "a \<in> \<int>"
proof -
  have nz: "a \<noteq> 0" using assms(2) by auto
  define e where "e = \<lfloor>log 2 \<bar>a\<bar>\<rfloor>"
  have e52: "52 \<le> e"
  proof (rule ccontr)
    assume "\<not> 52 \<le> e"
    then have "e + 1 \<le> 52" by simp
    then have "(2::real) powi (e + 1) \<le> 2 powi 52" by (intro power_int_increasing) simp_all
    with binade(2) [OF nz] assms(2) show False by (simp add: e_def)
  qed
  then have de: "double_exponent a = e" by (simp add: double_exponent_def e_def)
  have "double_ulp a = 2 powi (e - 52)" by (simp add: double_ulp_def de)
  also have "\<dots> = 2 ^ nat (e - 52)" using e52 by (simp add: power_int_def)
  also have "\<dots> = of_int (2 ^ nat (e - 52))" by simp
  finally have u: "double_ulp a = of_int (2 ^ nat (e - 52))" .
  have "a = nearest_double a" using assms(1) by (simp add: is_double_def)
  also have "\<dots> = of_int (py_round (a / double_ulp a)) * double_ulp a"
    using nz by (simp add: nearest_double_def)
  also have "\<dots> = of_int (py_round (a / double_ulp a) * 2 ^ nat (e - 52))"
    by (simp add: u)
  finally have "a = of_int (py_round (a / double_ulp a) * 2 ^ nat (e - 52))" .
  then show ?thesis using Ints_of_int by metis
qed

subsection \<open>\<open>round_g\<close> on finite doubles\<close>

lemma py_round_near:
  assumes "\<bar>y - of_int k\<bar> < 1 / 2"
  shows "py_round y = k"
proof -
  have "\<bar>of_int (py_round y) - y\<bar> \<le> 1 / 2" by (rule py_round_dist)
  with assms have "\<bar>(of_int (py_round y) :: real) - of_int k\<bar> < 1" by linarith
  then have "\<bar>(of_int (py_round y - k) :: real)\<bar> < 1" by simp
  then have "\<bar>py_round y - k\<bar> < 1" by linarith
  then show ?thesis by linarith
qed

lemma pow53_less: "(2::real) ^ 53 < 2 ^ 1024"
  by (rule power_strict_increasing) simp_all

lemma to_float_exact:
  assumes "is_double a"
  shows "to_float a = Inr (Fin a)"
  using assms by (simp add: to_float_def is_double_def)

lemma is_double_of_int:
  assumes "\<bar>n\<bar> \<le> 2 ^ 53"
  shows "is_double (of_int n)"
proof -
  have "real_of_int \<bar>n\<bar> \<le> real_of_int (2 ^ 53)"
    using assms by (intro of_int_le_iff [THEN iffD2])
  then have "\<bar>real_of_int n\<bar> \<le> 2 ^ 53" by simp
  with pow53_less have "\<bar>real_of_int n\<bar> < 2 ^ 1024" by linarith
  then show ?thesis using nearest_double_of_int [OF assms] by (simp add: is_double_def)
qed

lemma round_g_float_whole:
  assumes "is_double r" and "r = of_int n" and "100 \<le> \<bar>a\<bar>" and "py_round a = n"
  shows "round_g_float (Fin a) = Inr (Fin r)"
proof -
  have conv: "to_float (of_int n) = Inr (Fin r)"
    using to_float_exact [OF assms(1)] by (simp add: assms(2))
  have rnd: "float_round_nd (Fin a) 0 = Inr (Fin r)"
    using conv by (simp add: float_round_nd_def assms(4))
  have int: "float_int (Fin r) = Inr n"
    by (simp add: float_int_def assms(2))
  show ?thesis
    using assms(3) by (simp add: round_g_float_def float_abs_def float_ge_def rnd int conv Let_def)
qed

lemma round_g_float_big:
  assumes "is_double a" and "100 \<le> \<bar>a\<bar>"
  shows "round_g_float (Fin a) = Inr (Fin (of_int (py_round a)))"
    and "is_double (of_int (py_round a))"
proof -
  have both: "round_g_float (Fin a) = Inr (Fin (of_int (py_round a)))
              \<and> is_double (of_int (py_round a))"
  proof (cases "\<bar>a\<bar> < 2 ^ 52")
    case True
    have "a \<le> of_int (2 ^ 52)" using True by simp
    then have u: "py_round a \<le> 2 ^ 52" by (rule py_round_antimono_int)
    have "of_int (- (2 ^ 52)) \<le> a" using True by simp
    then have l: "- (2 ^ 52) \<le> py_round a" by (rule py_round_mono_int)
    from u l have "\<bar>py_round a\<bar> \<le> 2 ^ 53" by simp
    then have d: "is_double (of_int (py_round a))" by (rule is_double_of_int)
    from round_g_float_whole [OF d refl assms(2) refl] d show ?thesis by simp
  next
    case False
    then have "2 ^ 52 \<le> \<bar>a\<bar>" by simp
    with assms(1) have "a \<in> \<int>" by (rule double_large_is_int)
    then obtain m where m: "a = of_int m" by (auto elim: Ints_cases)
    have r: "py_round a = m" by (simp add: m)
    have d: "is_double (of_int (py_round a))" using assms(1) by (simp add: r m [symmetric])
    from round_g_float_whole [OF d refl assms(2) refl] d show ?thesis by simp
  qed
  from both show "round_g_float (Fin a) = Inr (Fin (of_int (py_round a)))" by simp
  from both show "is_double (of_int (py_round a))" by simp
qed

lemma tenth_range: "(2::real) powi (- 1022) \<le> 1 / 10"
proof -
  have "(2::real) powi (- 1022) \<le> 2 powi (- 4)" by (intro power_int_increasing) simp_all
  also have "\<dots> \<le> 1 / 10" by simp
  finally show ?thesis .
qed

lemma nearest_double_decimal:
  assumes "\<bar>k\<bar> \<le> 1000"
  shows "\<bar>nearest_double (of_int k / 10) - of_int k / 10\<bar> \<le> 100 / 2 ^ 53"
proof (cases "k = 0")
  case True
  then show ?thesis by (simp add: nearest_double_def)
next
  case False
  define x :: real where "x = of_int k / 10"
  have "1 \<le> \<bar>real_of_int k\<bar>" using False by simp
  then have lo: "1 / 10 \<le> \<bar>x\<bar>" by (simp add: x_def)
  have "\<bar>real_of_int k\<bar> \<le> 1000" using assms by linarith
  then have hi: "\<bar>x\<bar> \<le> 100" by (simp add: x_def)
  have "2 powi (- 1022) \<le> \<bar>x\<bar>" using tenth_range lo by linarith
  then have "double_ulp x \<le> \<bar>x\<bar> / 2 ^ 52" by (rule double_ulp_le)
  also have "\<dots> \<le> 100 / 2 ^ 52" using hi by (intro divide_right_mono) simp_all
  finally have "double_ulp x / 2 \<le> 100 / 2 ^ 53" by simp
  with nearest_double_error [of x] show ?thesis unfolding x_def by linarith
qed

lemma small_eps: "(100::real) / 2 ^ 53 < 1 / 100"
  by simp

lemma round_g_float_small:
  assumes "\<bar>a\<bar> < 100"
  shows "round_g_float (Fin a) = Inr (Fin (nearest_double (of_int (py_round (a * 10)) / 10)))"
proof -
  define k where "k = py_round (a * 10)"
  have "a * 10 \<le> of_int 1000" using assms by simp
  then have u: "k \<le> 1000" unfolding k_def by (rule py_round_antimono_int)
  have "of_int (- 1000) \<le> a * 10" using assms by simp
  then have l: "- 1000 \<le> k" unfolding k_def by (rule py_round_mono_int)
  from u l have k: "\<bar>k\<bar> \<le> 1000" by simp
  then have "\<bar>real_of_int k\<bar> \<le> 1000" by linarith
  then have "\<bar>real_of_int k / 10\<bar> \<le> 100" by simp
  with nearest_double_decimal [OF k] small_eps
  have "\<bar>nearest_double (of_int k / 10)\<bar> < 101" by linarith
  moreover have "(101::real) < 2 ^ 1024"
  proof -
    have "(101::real) < 2 ^ 7" by simp
    also have "(2::real) ^ 7 < 2 ^ 1024" by (rule power_strict_increasing) simp_all
    finally show ?thesis .
  qed
  ultimately have "\<bar>nearest_double (of_int k / 10)\<bar> < 2 ^ 1024" by linarith
  then have "to_float (of_int k / 10) = Inr (Fin (nearest_double (of_int k / 10)))"
    by (simp add: to_float_def)
  then show ?thesis
    using assms
    by (simp add: round_g_float_def float_abs_def float_ge_def float_round_nd_def
        k_def Let_def)
qed

lemma round_g_float_idem_big:
  assumes "is_double a" and "100 \<le> \<bar>a\<bar>"
  shows "round_g_float (Fin (of_int (py_round a))) = Inr (Fin (of_int (py_round a)))"
proof -
  have "of_int 100 \<le> \<bar>a\<bar>" using assms(2) by simp
  then have "100 \<le> \<bar>py_round a\<bar>" using py_round_abs_ge [of 100 a] by simp
  then have big: "100 \<le> \<bar>(of_int (py_round a) :: real)\<bar>" by linarith
  from round_g_float_big(1) [OF round_g_float_big(2) [OF assms] big]
  show ?thesis by simp
qed

lemma round_g_float_idem_small:
  assumes "\<bar>a\<bar> < 100"
  shows "round_g_float (Fin (nearest_double (of_int (py_round (a * 10)) / 10)))
           = Inr (Fin (nearest_double (of_int (py_round (a * 10)) / 10)))"
proof -
  define k where "k = py_round (a * 10)"
  define r where "r = nearest_double (of_int k / 10)"
  have "a * 10 \<le> of_int 1000" using assms by simp
  then have u: "k \<le> 1000" unfolding k_def by (rule py_round_antimono_int)
  have "of_int (- 1000) \<le> a * 10" using assms by simp
  then have l: "- 1000 \<le> k" unfolding k_def by (rule py_round_mono_int)
  from u l have k: "\<bar>k\<bar> \<le> 1000" by simp
  have err: "\<bar>r - of_int k / 10\<bar> \<le> 100 / 2 ^ 53"
    unfolding r_def by (rule nearest_double_decimal [OF k])
  have goal: "round_g_float (Fin r) = Inr (Fin r)"
  proof (cases "\<bar>k\<bar> = 1000")
    case True
    then have "k = 1000 \<or> k = - 1000" by linarith
    then have rk: "r = of_int (k div 10)" and kd: "\<bar>k div 10\<bar> \<le> 2 ^ 53"
      and big: "100 \<le> \<bar>(of_int (k div 10) :: real)\<bar>"
      using nearest_double_of_int [of 100] nearest_double_of_int [of "- 100"]
      by (auto simp: r_def)
    have d: "is_double (of_int (k div 10))" using kd by (rule is_double_of_int)
    from round_g_float_big(1) [OF d big] show ?thesis by (simp add: rk)
  next
    case False
    with k have "\<bar>k\<bar> \<le> 999" by linarith
    then have "\<bar>real_of_int k\<bar> \<le> 999" by linarith
    then have kk: "\<bar>real_of_int k / 10\<bar> \<le> 999 / 10" by simp
    with err small_eps have small: "\<bar>r\<bar> < 100" by linarith
    from err small_eps have "\<bar>r * 10 - of_int k\<bar> < 1 / 2" by linarith
    then have "py_round (r * 10) = k" by (rule py_round_near)
    with round_g_float_small [OF small] show ?thesis by (simp add: r_def)
  qed
  then show ?thesis by (simp add: r_def k_def)
qed

lemma round_g_float_of_round_g:
  assumes "is_double a"
  shows "round_g_float (Fin a) = Inr (Fin (nearest_double (round_g a)))"
proof (cases "100 \<le> \<bar>a\<bar>")
  case True
  have "nearest_double (of_int (py_round a)) = of_int (py_round a)"
    using round_g_float_big(2) [OF assms True] by (simp add: is_double_def)
  then show ?thesis
    using round_g_float_big(1) [OF assms True] True by (simp add: round_g_big)
next
  case False
  then have "\<bar>a\<bar> < 100" by simp
  then show ?thesis using round_g_float_small [of a] by (simp add: round_g_small)
qed

text \<open>
  C9 (as amended). For every finite float \<open>v\<close>, \<open>round_g v\<close> is \<open>v\<close> rounded to whole grams
  (ties to the even gram) when \<open>\<bar>v\<bar> \<ge> 100\<close>, and otherwise the float nearest to \<open>v\<close>
  rounded to one decimal place; and on finite floats \<open>round_g\<close> is idempotent,
  \<open>round_g (round_g v) == round_g v\<close>. The infinities and NaN are excluded: on an
  infinity \<open>round_g\<close> raises \<open>OverflowError\<close>, and on NaN it returns NaN, which is equal
  to nothing.
\<close>

theorem round_g_finite_float_idempotent:
  assumes "is_double a"
  shows "(100 \<le> \<bar>a\<bar> \<longrightarrow>
            round_g_float (Fin a) = Inr (Fin (of_int (py_round a))))
    \<and> (\<bar>a\<bar> < 100 \<longrightarrow>
            round_g_float (Fin a)
              = Inr (Fin (nearest_double (of_int (py_round (a * 10)) / 10))))
    \<and> (\<exists>r. round_g_float (Fin a) = Inr (Fin r)
            \<and> round_g_float (Fin r) = Inr (Fin r) \<and> float_eq (Fin r) (Fin r))"
proof (cases "100 \<le> \<bar>a\<bar>")
  case True
  have one: "round_g_float (Fin a) = Inr (Fin (of_int (py_round a)))"
    using assms True by (rule round_g_float_big(1))
  have two: "round_g_float (Fin (of_int (py_round a))) = Inr (Fin (of_int (py_round a)))"
    using assms True by (rule round_g_float_idem_big)
  have "float_eq (Fin (of_int (py_round a))) (Fin (of_int (py_round a)))"
    by (simp add: float_eq_def)
  with one two True show ?thesis by auto
next
  case False
  then have small: "\<bar>a\<bar> < 100" by simp
  define r where "r = nearest_double (of_int (py_round (a * 10)) / 10)"
  have one: "round_g_float (Fin a) = Inr (Fin r)"
    unfolding r_def using small by (rule round_g_float_small)
  have two: "round_g_float (Fin r) = Inr (Fin r)"
    unfolding r_def using small by (rule round_g_float_idem_small)
  have "float_eq (Fin r) (Fin r)" by (simp add: float_eq_def)
  with one two small show ?thesis unfolding r_def by auto
qed

lemma exponent_3_4: "double_exponent (3 / 4) = - 1"
proof -
  have "\<lfloor>log 2 (3 / 4 :: real)\<rfloor> = - 1"
    by (simp add: floor_log_eq_powr_iff powr_neg_numeral)
  then show ?thesis by (simp add: double_exponent_def)
qed

lemma exponent_4_5: "double_exponent (4 / 5) = - 1"
proof -
  have "\<lfloor>log 2 (4 / 5 :: real)\<rfloor> = - 1"
    by (simp add: floor_log_eq_powr_iff powr_neg_numeral)
  then show ?thesis by (simp add: double_exponent_def)
qed

lemma exponent_301_2: "double_exponent (301 / 2) = 7"
proof -
  have "\<lfloor>log 2 (301 / 2 :: real)\<rfloor> = 7"
    by (simp add: floor_log_eq_powr_iff powr_neg_numeral)
  then show ?thesis by (simp add: double_exponent_def)
qed

lemma double_3_4: "is_double (3 / 4)"
  by (simp add: is_double_def nearest_double_def double_ulp_def exponent_3_4 py_round_def Let_def)

lemma double_301_2: "is_double (301 / 2)"
  by (simp add: is_double_def nearest_double_def double_ulp_def exponent_301_2 py_round_def Let_def)

lemma nearest_4_5: "nearest_double (4 / 5) = 7205759403792794 / 2 ^ 53"
  by (simp add: nearest_double_def double_ulp_def exponent_4_5 py_round_def Let_def)

lemma exponent_7_20: "double_exponent (7 / 20) = - 2"
proof -
  have "\<lfloor>log 2 (7 / 20 :: real)\<rfloor> = - 2"
    by (simp add: floor_log_eq_powr_iff powr_neg_numeral)
  then show ?thesis by (simp add: double_exponent_def)
qed

lemma nearest_7_20: "nearest_double (7 / 20) = 3152519739159347 / 2 ^ 53"
  by (simp add: nearest_double_def double_ulp_def exponent_7_20 py_round_def Let_def)

lemma exponent_typed_7_20: "double_exponent (3152519739159347 / 9007199254740992) = - 2"
proof -
  have "\<lfloor>log 2 (3152519739159347 / 9007199254740992 :: real)\<rfloor> = - 2"
    by (simp add: floor_log_eq_powr_iff powr_neg_numeral)
  then show ?thesis by (simp add: double_exponent_def)
qed

lemma double_typed_7_20: "is_double (nearest_double (7 / 20))"
  unfolding nearest_7_20
  by (simp add: is_double_def nearest_double_def double_ulp_def exponent_typed_7_20
      py_round_def Let_def)

theorem round_g_finite_float_idempotent_witness:
  "is_double (3 / 4)
   \<and> round_g_float (Fin (3 / 4)) = Inr (Fin (nearest_double (8 / 10)))
   \<and> nearest_double (8 / 10) = 7205759403792794 / 2 ^ 53
   \<and> round_g_float (Fin (nearest_double (8 / 10))) = Inr (Fin (nearest_double (8 / 10)))
   \<and> is_double (301 / 2)
   \<and> round_g_float (Fin (301 / 2)) = Inr (Fin 150)
   \<and> round_g_float (Fin 150) = Inr (Fin 150)
   \<and> is_double (nearest_double (35 / 100))
   \<and> round_g_float (Fin (nearest_double (35 / 100))) = Inr (Fin (nearest_double (3 / 10)))"
proof -
  have s: "\<bar>3 / 4 :: real\<bar> < 100" by simp
  have b: "100 \<le> \<bar>301 / 2 :: real\<bar>" by simp
  have r1: "py_round (15 / 2) = 8" by (simp add: py_round_def Let_def)
  have r2: "py_round (301 / 2) = 150" by (simp add: py_round_def Let_def)
  note small = round_g_finite_float_idempotent [OF double_3_4]
  note big = round_g_finite_float_idempotent [OF double_301_2]
  from small s have v1: "round_g_float (Fin (3 / 4)) = Inr (Fin (nearest_double (8 / 10)))"
    by (simp add: r1)
  from small v1
  have v2: "round_g_float (Fin (nearest_double (8 / 10))) = Inr (Fin (nearest_double (8 / 10)))"
    by auto
  from big b have v3: "round_g_float (Fin (301 / 2)) = Inr (Fin 150)"
    by (simp add: r2)
  from big v3 have v4: "round_g_float (Fin 150) = Inr (Fin 150)"
    by auto
  have n8: "nearest_double (8 / 10) = 7205759403792794 / 2 ^ 53"
    using nearest_4_5 by simp
  have d35: "is_double (nearest_double (35 / 100))"
    using double_typed_7_20 by simp
  have s35: "\<bar>nearest_double (7 / 20)\<bar> < 100" by (simp add: nearest_7_20)
  have r35: "py_round (nearest_double (7 / 20) * 10) = 3"
    by (simp add: nearest_7_20 py_round_def Let_def)
  from round_g_finite_float_idempotent [OF double_typed_7_20] s35
  have "round_g_float (Fin (nearest_double (7 / 20))) = Inr (Fin (nearest_double (3 / 10)))"
    by (simp add: r35)
  then have v5: "round_g_float (Fin (nearest_double (35 / 100)))
                   = Inr (Fin (nearest_double (3 / 10)))"
    by simp
  show ?thesis
    using double_3_4 double_301_2 n8 v1 v2 v3 v4 d35 v5 by blast
qed

theorem round_g_nonfinite_counterexample:
  "round_g_float PosInf = Inl OverflowError
   \<and> round_g_float NegInf = Inl OverflowError
   \<and> round_g_float NaN = Inr NaN
   \<and> \<not> float_eq NaN NaN"
  by (simp add: round_g_float_def float_abs_def float_ge_def float_round_nd_def
      float_int_def float_eq_def Let_def)

section \<open>Display formatting\<close>

lemmas fmt_eval =
  fmt_art9_def fmt_fixed_def py_round_def rstrip_def show_int_def Let_def

text \<open>
  C5 (as amended). \<open>fmt_art9\<close> follows the magnitude table: from 10 on an integer; from 1
  on one decimal with the trailing zero and the point stripped; below 1 two decimals for a
  micronutrient and one decimal otherwise, nothing stripped. At the sample points:
  \<open>fmt_art9(0.004, is_micro=True) = "0.00"\<close>, \<open>fmt_art9(0.004, is_micro=False) = "0.0"\<close>,
  \<open>fmt_art9(7.96) = "8"\<close> (the stripping removes \<open>".0"\<close>) and \<open>fmt_art9(150) = "150"\<close>.
\<close>

theorem fmt_art9_magnitude_table:
  "(10 \<le> \<bar>v\<bar> \<longrightarrow> fmt_art9 (Some v) m = show_int (py_round v))
   \<and> (1 \<le> \<bar>v\<bar> \<and> \<bar>v\<bar> < 10 \<longrightarrow>
        fmt_art9 (Some v) m = rstrip (CHR ''.'') (rstrip (CHR ''0'') (fmt_fixed v 1)))
   \<and> (\<bar>v\<bar> < 1 \<longrightarrow>
        fmt_art9 (Some v) True = fmt_fixed v 2 \<and> fmt_art9 (Some v) False = fmt_fixed v 1)
   \<and> fmt_art9 (Some (4 / 1000)) True = ''0.00''
   \<and> fmt_art9 (Some (4 / 1000)) False = ''0.0''
   \<and> fmt_art9 (Some (796 / 100)) False = ''8''
   \<and> fmt_art9 (Some 150) False = ''150''"
proof (intro conjI impI)
  assume "10 \<le> \<bar>v\<bar>"
  then show "fmt_art9 (Some v) m = show_int (py_round v)"
    by (simp add: fmt_art9_def Let_def)
next
  assume "1 \<le> \<bar>v\<bar> \<and> \<bar>v\<bar> < 10"
  then show "fmt_art9 (Some v) m = rstrip (CHR ''.'') (rstrip (CHR ''0'') (fmt_fixed v 1))"
    by (simp add: fmt_art9_def Let_def)
next
  assume "\<bar>v\<bar> < 1"
  then show "fmt_art9 (Some v) True = fmt_fixed v 2" by (simp add: fmt_art9_def Let_def)
next
  assume "\<bar>v\<bar> < 1"
  then show "fmt_art9 (Some v) False = fmt_fixed v 1" by (simp add: fmt_art9_def Let_def)
next
  show "fmt_art9 (Some (4 / 1000)) True = ''0.00''" by (simp add: fmt_eval)
  show "fmt_art9 (Some (4 / 1000)) False = ''0.0''" by (simp add: fmt_eval)
  show "fmt_art9 (Some (796 / 100)) False = ''8''" by (simp add: fmt_eval)
  show "fmt_art9 (Some 150) False = ''150''" by (simp add: fmt_eval)
qed

theorem fmt_art9_magnitude_table_witness:
  "(10::real) \<le> \<bar>150\<bar> \<and> fmt_art9 (Some 150) False = ''150''
   \<and> (1::real) \<le> \<bar>52 / 10\<bar> \<and> \<bar>52 / 10 :: real\<bar> < 10 \<and> fmt_art9 (Some (52 / 10)) False = ''5.2''
   \<and> \<bar>4 / 1000 :: real\<bar> < 1 \<and> fmt_art9 (Some (4 / 1000)) True = ''0.00''
   \<and> fmt_art9 (Some (4 / 1000)) False = ''0.0''"
  using fmt_art9_magnitude_table [of 150 False] fmt_art9_magnitude_table [of "52 / 10" False]
        fmt_art9_magnitude_table [of "4 / 1000" False]
  by (simp add: fmt_fixed_def py_round_def rstrip_def show_int_def Let_def)

theorem fmt_art9_7_96_counterexample:
  "\<not> (fmt_art9 (Some (4 / 1000)) True = ''0.00''
      \<and> fmt_art9 (Some (4 / 1000)) False = ''0.0''
      \<and> fmt_art9 (Some (796 / 100)) False = ''8.0''
      \<and> fmt_art9 (Some 150) False = ''150'')"
  by (simp add: fmt_eval)

section \<open>Declared values of the calculation section\<close>

lemmas calc_defs =
  fat_total_100_def sat_fat_100_def trans_fat_100_mg_def carb_100_def sug_total_100_def
  sug_added_100_def fiber_100_def protein_100_def sodium_100_mg_def
  portion_size_def trans_fat_pp_mg_def sodium_pp_mg_def fat_total_pp_def
  portion_from_per100_def default_snapshot_def macro_order_def

lemmas round_eval =
  round_g_def round_mg_def py_round_nd_def py_round_def nonsig_zero_g_def nonsig_zero_mg_def
  dict_get_def Let_def

text \<open>
  C1. With 80 mg of trans fat per 100 g and a portion of 40 g (raw per-portion value
  32 mg), the specification declares 0 per 100 and 32 per portion. The module declares 32 per
  portion, and 80 per 100: \<open>nonsig_zero_g\<close> has no entry for \<open>Grasas trans\<close>, so the
  per-100 value passes through unchanged; the 100 mg limit sits in \<open>nonsig_zero_mg\<close>,
  which would give 0.
\<close>

theorem trans_fat_80mg_per100_not_zeroed:
  "trans_fat_100_mg_r (default_snapshot\<lparr>in_trans_fat_mg := 80\<rparr>) = 80
   \<and> nonsig_zero_g ''Grasas trans'' (80 / 1000) = 80 / 1000
   \<and> nonsig_zero_mg ''Grasas trans'' 80 = 0
   \<and> trans_fat_pp_mg (default_snapshot\<lparr>in_trans_fat_mg := 80\<rparr>) = 32
   \<and> trans_fat_pp_mg_r (default_snapshot\<lparr>in_trans_fat_mg := 80\<rparr>) = 32
   \<and> round_mg 32 = 32"
  by (simp add: trans_fat_100_mg_r_def trans_fat_pp_mg_r_def calc_defs round_eval)

text \<open>
  C3. The specification: a raw per-100 value \<open>0 < v \<le> 0.5\<close> of total carbohydrate, total sugars,
  protein or fibre is declared as 0. The module rounds these four without calling
  \<open>nonsig_zero_g\<close>, so 0.3 g is declared as 0.3 g, while total fat, which goes through
  \<open>nonsig_zero_g\<close>, is declared as 0.
\<close>

theorem carbs_sugars_protein_fiber_not_zeroed:
  "carb_100_r (default_snapshot\<lparr>in_carb := 0.3\<rparr>) = 0.3
   \<and> sug_total_100_r (default_snapshot\<lparr>in_sug_total := 0.3\<rparr>) = 0.3
   \<and> protein_100_r (default_snapshot\<lparr>in_protein := 0.3\<rparr>) = 0.3
   \<and> fiber_100_r (default_snapshot\<lparr>in_fiber := 0.3\<rparr>) = 0.3
   \<and> nonsig_zero_g ''Carbohidratos totales'' 0.3 = 0
   \<and> fat_total_100_r (default_snapshot\<lparr>in_fat_total := 0.3\<rparr>) = 0"
  by (simp add: carb_100_r_def sug_total_100_r_def protein_100_r_def fiber_100_r_def
      fat_total_100_r_def calc_defs round_eval)

text \<open>
  C6. The specification: a raw sodium value \<open>v \<le> 5\<close> mg is declared as 0, 5 mg included. The
  module passes sodium to \<open>round_mg\<close> alone, whose test is \<open>v < 5\<close>: exactly 5 mg is
  declared as 5, per 100 and per portion. \<open>nonsig_zero_mg\<close>, which holds the inclusive
  limit, is never called.
\<close>

theorem sodium_5mg_not_zeroed:
  "sodium_100_mg_r (default_snapshot\<lparr>in_sodium_mg := 5\<rparr>) = 5
   \<and> sodium_pp_mg (default_snapshot\<lparr>in_sodium_mg := 12.5\<rparr>) = 5
   \<and> sodium_pp_mg_r (default_snapshot\<lparr>in_sodium_mg := 12.5\<rparr>) = 5
   \<and> round_mg 5 = 5
   \<and> nonsig_zero_mg ''Sodio'' 5 = 0"
  by (simp add: sodium_100_mg_r_def sodium_pp_mg_r_def calc_defs round_eval)

section \<open>Column solver\<close>

lemma name_w_step_ge: "a \<le> name_w_step d a li"
  by (cases li) (simp add: name_w_step_def Let_def)

lemma foldl_name_w_ge: "a \<le> foldl (name_w_step d) a ls"
proof (induction ls arbitrary: a)
  case Nil
  then show ?case by simp
next
  case (Cons l ls)
  have "a \<le> name_w_step d a l" by (rule name_w_step_ge)
  also have "\<dots> \<le> foldl (name_w_step d) (name_w_step d a l) ls" by (rule Cons.IH)
  finally show ?case by simp
qed

lemma foldl_name_w_covers:
  "(label, indent) \<in> set ls \<Longrightarrow>
   fst (measure_text d (strip label) (label_font label)) + indent * 28
     \<le> foldl (name_w_step d) a ls"
proof (induction ls arbitrary: a)
  case Nil
  then show ?case by simp
next
  case (Cons l ls)
  show ?case
  proof (cases "l = (label, indent)")
    case True
    have "fst (measure_text d (strip label) (label_font label)) + indent * 28
            \<le> name_w_step d a l"
      using True by (simp add: name_w_step_def Let_def)
    also have "\<dots> \<le> foldl (name_w_step d) (name_w_step d a l) ls" by (rule foldl_name_w_ge)
    finally show ?thesis by simp
  next
    case False
    with Cons.prems have "(label, indent) \<in> set ls" by simp
    then show ?thesis using Cons.IH by simp
  qed
qed

lemma value_w_step_ge: "a \<le> value_w_step d a t"
  by (simp add: value_w_step_def Let_def)

lemma foldl_value_w_ge: "a \<le> foldl (value_w_step d) a ts"
proof (induction ts arbitrary: a)
  case Nil
  then show ?case by simp
next
  case (Cons t ts)
  have "a \<le> value_w_step d a t" by (rule value_w_step_ge)
  also have "\<dots> \<le> foldl (value_w_step d) (value_w_step d a t) ts" by (rule Cons.IH)
  finally show ?case by simp
qed

lemma foldl_value_w_covers:
  "t \<in> set ts \<Longrightarrow> fst (measure_text d t FONT_LABEL) \<le> foldl (value_w_step d) a ts"
proof (induction ts arbitrary: a)
  case Nil
  then show ?case by simp
next
  case (Cons u ts)
  show ?case
  proof (cases "u = t")
    case True
    have "fst (measure_text d t FONT_LABEL) \<le> value_w_step d a u"
      using True by (simp add: value_w_step_def Let_def)
    also have "\<dots> \<le> foldl (value_w_step d) (value_w_step d a u) ts" by (rule foldl_value_w_ge)
    finally show ?thesis by simp
  next
    case False
    with Cons.prems have "t \<in> set ts" by simp
    then show ?thesis using Cons.IH by simp
  qed
qed

text \<open>
  C8. For every row set and nominal width \<open>W\<close>, \<open>compute_cols_vertical\<close> returns four
  strictly increasing x-offsets: the name column, as wide as the widest label with its
  indent, then a gap of 35; the per-100 column, as wide as its widest value or its
  header, then a gap of 20; the per-portion column likewise, then a margin of 15. The
  resolved width is never below the last offset nor below \<open>W\<close>: it is \<open>W\<close> when the
  columns fit and the last offset plus both borders when they do not.
\<close>

theorem compute_cols_vertical_offsets:
  assumes "compute_cols_vertical s d labels v100 vpp W = (col_x, W')"
  shows "length col_x = 4
    \<and> col_x ! 0 < col_x ! 1 \<and> col_x ! 1 < col_x ! 2 \<and> col_x ! 2 < col_x ! 3
    \<and> col_x ! 1 = col_x ! 0 + (foldl (name_w_step d) 0 labels + 15 + GRID_W) + 35
    \<and> col_x ! 2 = col_x ! 1
         + (max (foldl (value_w_step d) 0 v100)
                (fst (measure_text d (fst (column_labels s)) FONT_SMALL_B)) + 15) + 20
    \<and> col_x ! 3 = col_x ! 2
         + (max (foldl (value_w_step d) 0 vpp)
                (fst (measure_text d (snd (column_labels s)) FONT_SMALL_B)) + 4) + 15
    \<and> (\<forall>(label, indent) \<in> set labels.
          fst (measure_text d (strip label) (label_font label)) + indent * 28
            \<le> foldl (name_w_step d) 0 labels)
    \<and> (\<forall>t \<in> set v100. fst (measure_text d t FONT_LABEL) \<le> foldl (value_w_step d) 0 v100)
    \<and> (\<forall>t \<in> set vpp. fst (measure_text d t FONT_LABEL) \<le> foldl (value_w_step d) 0 vpp)
    \<and> col_x ! 3 \<le> W' \<and> W \<le> W'
    \<and> (W < col_x ! 3 \<longrightarrow> W' = col_x ! 3 + 2 * BORDER_W)
    \<and> (col_x ! 3 \<le> W \<longrightarrow> W' = W)"
proof -
  have n: "0 \<le> foldl (name_w_step d) 0 labels" by (rule foldl_name_w_ge)
  have a: "0 \<le> foldl (value_w_step d) 0 v100" by (rule foldl_value_w_ge)
  have b: "0 \<le> foldl (value_w_step d) 0 vpp" by (rule foldl_value_w_ge)
  have cov: "\<forall>(label, indent) \<in> set labels.
          fst (measure_text d (strip label) (label_font label)) + indent * 28
            \<le> foldl (name_w_step d) 0 labels"
    using foldl_name_w_covers by fastforce
  have c100: "\<forall>t \<in> set v100. fst (measure_text d t FONT_LABEL) \<le> foldl (value_w_step d) 0 v100"
    using foldl_value_w_covers by blast
  have cpp: "\<forall>t \<in> set vpp. fst (measure_text d t FONT_LABEL) \<le> foldl (value_w_step d) 0 vpp"
    using foldl_value_w_covers by blast
  from assms have cx: "col_x =
      [BORDER_W + CELL_PAD_X,
       BORDER_W + CELL_PAD_X + (foldl (name_w_step d) 0 labels + 15 + GRID_W) + 35,
       BORDER_W + CELL_PAD_X + (foldl (name_w_step d) 0 labels + 15 + GRID_W) + 35
         + (max (foldl (value_w_step d) 0 v100)
                (fst (measure_text d (fst (column_labels s)) FONT_SMALL_B)) + 15) + 20,
       BORDER_W + CELL_PAD_X + (foldl (name_w_step d) 0 labels + 15 + GRID_W) + 35
         + (max (foldl (value_w_step d) 0 v100)
                (fst (measure_text d (fst (column_labels s)) FONT_SMALL_B)) + 15) + 20
         + (max (foldl (value_w_step d) 0 vpp)
                (fst (measure_text d (snd (column_labels s)) FONT_SMALL_B)) + 4) + 15]"
    by (simp add: compute_cols_vertical_def Let_def)
  from assms have w: "W' = (if col_x ! 3 > W then col_x ! 3 + BORDER_W * 2 else W)"
    by (auto simp add: compute_cols_vertical_def Let_def)
  have len: "length col_x = 4" by (simp add: cx)
  have g1: "col_x ! 1 = col_x ! 0 + (foldl (name_w_step d) 0 labels + 15 + GRID_W) + 35"
    by (simp add: cx)
  have g2: "col_x ! 2 = col_x ! 1
         + (max (foldl (value_w_step d) 0 v100)
                (fst (measure_text d (fst (column_labels s)) FONT_SMALL_B)) + 15) + 20"
    by (simp add: cx)
  have g3: "col_x ! 3 = col_x ! 2
         + (max (foldl (value_w_step d) 0 vpp)
                (fst (measure_text d (snd (column_labels s)) FONT_SMALL_B)) + 4) + 15"
    by (simp add: cx)
  have i1: "col_x ! 0 < col_x ! 1" using g1 n by (simp add: GRID_W_def)
  have i2: "col_x ! 1 < col_x ! 2" using g2 a by linarith
  have i3: "col_x ! 2 < col_x ! 3" using g3 b by linarith
  have w1: "col_x ! 3 \<le> W'" using w by (simp add: BORDER_W_def)
  have w2: "W \<le> W'" using w by (simp add: BORDER_W_def)
  have w3: "W < col_x ! 3 \<longrightarrow> W' = col_x ! 3 + 2 * BORDER_W" using w by simp
  have w4: "col_x ! 3 \<le> W \<longrightarrow> W' = W" using w by simp
  show ?thesis
    using len i1 i2 i3 g1 g2 g3 cov c100 cpp w1 w2 w3 w4 by blast
qed

theorem compute_cols_vertical_offsets_witness:
  "compute_cols_vertical default_snapshot draw_10px [(''Sodio'', 0), (''abcdef'', 1)] [''12 g''] [''1 g''] 100
     = ([28, 169, 294, 433], 445)
   \<and> (28::int) < 169 \<and> (169::int) < 294 \<and> (294::int) < 433 \<and> (433::int) \<le> 445
   \<and> (100::int) < 433 \<and> (445::int) = 433 + 2 * BORDER_W"
proof -
  have e: "compute_cols_vertical default_snapshot draw_10px [(''Sodio'', 0), (''abcdef'', 1)] [''12 g''] [''1 g''] 100
     = ([28, 169, 294, 433], 445)"
    by (simp add: compute_cols_vertical_def name_w_step_def value_w_step_def measure_text_def
        draw_10px_def label_font_def strip_def isspace_def column_labels_def is_liquid_def
        default_snapshot_def BORDER_W_def GRID_W_def CELL_PAD_X_def Let_def)
  from compute_cols_vertical_offsets [OF e] show ?thesis
    using e by (simp add: BORDER_W_def)
qed

section \<open>Rich text wrapper\<close>

lemma foldl_width_shift:
  "foldl (\<lambda>w (t, b). w + fst (measure_text d t (token_font b))) a ts
     = a + line_width d ts"
proof (induction ts arbitrary: a)
  case Nil
  then show ?case by (simp add: line_width_def)
next
  case (Cons tok ts)
  obtain t b where tok: "tok = (t, b)" by (cases tok)
  show ?case
    using Cons.IH [of "a + fst (measure_text d t (token_font b))"]
          Cons.IH [of "fst (measure_text d t (token_font b))"]
    by (simp add: line_width_def tok)
qed

lemma line_width_Nil [simp]: "line_width d [] = 0"
  by (simp add: line_width_def)

lemma line_width_Cons:
  "line_width d ((t, b) # ts) = fst (measure_text d t (token_font b)) + line_width d ts"
  using foldl_width_shift [of d "fst (measure_text d t (token_font b))" ts]
  by (simp add: line_width_def)

lemma line_width_append: "line_width d (us @ vs) = line_width d us + line_width d vs"
proof (induction us)
  case Nil
  then show ?case by simp
next
  case (Cons tok us)
  obtain t b where tok: "tok = (t, b)" by (cases tok)
  show ?case using Cons.IH by (simp add: tok line_width_Cons)
qed

lemma line_width_nonneg:
  assumes "\<forall>t f. 0 \<le> fst (measure_text d t f)"
  shows "0 \<le> line_width d ts"
proof (induction ts)
  case Nil
  then show ?case by simp
next
  case (Cons tok ts)
  obtain t b where tok: "tok = (t, b)" by (cases tok)
  have "0 \<le> fst (measure_text d t (token_font b))" using assms by blast
  then show ?case using Cons.IH by (simp add: tok line_width_Cons)
qed

lemma measure_tokens_eq:
  "measure_tokens d x flx ts is_first
     = line_width d ts + (if is_first then first_line_offset x flx else 0)"
  by (simp add: measure_tokens_def first_line_offset_def Let_def split: option.splits)

lemma build_loop_append:
  "build_loop d x flx max_w (us @ vs) st
     = build_loop d x flx max_w vs (build_loop d x flx max_w us st)"
proof (induction us arbitrary: st)
  case Nil
  then show ?case by (cases st) simp
next
  case (Cons tok us)
  obtain t b where tok: "tok = (t, b)" by (cases tok)
  obtain lines current where st: "st = (lines, current)" by (cases st)
  show ?case by (simp add: tok st Cons.IH Let_def)
qed

lemma build_loop_fits:
  assumes nonneg: "\<forall>t f. 0 \<le> fst (measure_text d t f)"
  shows "\<forall>(t, b) \<in> set ts. t \<noteq> [] \<Longrightarrow>
         measure_tokens d x flx (current @ ts) True \<le> max_w \<Longrightarrow>
         build_loop d x flx max_w ts ([], current) = ([], current @ ts)"
proof (induction ts arbitrary: current)
  case Nil
  then show ?case by simp
next
  case (Cons tok ts)
  obtain t b where tok: "tok = (t, b)" by (cases tok)
  from Cons.prems(1) have t: "t \<noteq> []" and rest: "\<forall>(t, b) \<in> set ts. t \<noteq> []"
    by (auto simp: tok)
  have "0 \<le> line_width d ts" using nonneg by (rule line_width_nonneg)
  then have "measure_tokens d x flx (current @ [(t, b)]) True
               \<le> measure_tokens d x flx ((current @ [(t, b)]) @ ts) True"
    by (simp add: measure_tokens_eq line_width_append line_width_Cons)
  also have "\<dots> \<le> max_w" using Cons.prems(2) by (simp add: tok)
  finally have fit: "measure_tokens d x flx (current @ [(t, b)]) True \<le> max_w" .
  have "build_loop d x flx max_w ts ([], current @ [(t, b)]) = ([], (current @ [(t, b)]) @ ts)"
    using rest Cons.prems(2) by (intro Cons.IH) (simp_all add: tok)
  then show ?case using t fit by (simp add: tok Let_def)
qed

lemma build_lines_one_line:
  assumes "\<forall>t f. 0 \<le> fst (measure_text d t f)"
      and "\<forall>(t, b) \<in> set ts. t \<noteq> []" and "ts \<noteq> []"
      and "measure_tokens d x flx ts True \<le> max_w"
  shows "build_lines d x flx max_w ts = [ts]"
  using build_loop_fits [OF assms(1), of ts x flx "[]" max_w] assms(2-4)
  by (simp add: build_lines_def)

lemma build_lines_second_line:
  assumes nonneg: "\<forall>t f. 0 \<le> fst (measure_text d t f)"
      and texts: "\<forall>(t, b) \<in> set ts. t \<noteq> []" and ne: "ts \<noteq> []"
      and exact: "measure_tokens d x flx ts True = max_w"
      and t: "t \<noteq> []" and pos: "0 < fst (measure_text d t (token_font b))"
  shows "build_lines d x flx max_w (ts @ [(t, b)]) = [ts, [(t, b)] ]"
proof -
  have loop: "build_loop d x flx max_w ts ([], []) = ([], ts)"
    using build_loop_fits [OF nonneg, of ts x flx "[]" max_w] texts exact by simp
  have over: "\<not> measure_tokens d x flx (ts @ [(t, b)]) True \<le> max_w"
    using exact pos by (simp add: measure_tokens_eq line_width_append line_width_Cons)
  show ?thesis
    using over t ne by (simp add: build_lines_def build_loop_append loop Let_def)
qed

lemma build_loop_lines_grow:
  "l \<in> set lines \<Longrightarrow> l \<in> set (fst (build_loop d x flx max_w ts (lines, current)))"
proof (induction ts arbitrary: lines current)
  case Nil
  then show ?case by simp
next
  case (Cons tok ts)
  obtain t b where tok: "tok = (t, b)" by (cases tok)
  show ?case using Cons.prems by (auto simp: tok Let_def intro: Cons.IH)
qed

lemma build_loop_wide_kept:
  assumes nonneg: "\<forall>t f. 0 \<le> fst (measure_text d t f)"
      and off: "0 \<le> first_line_offset x flx"
      and wide: "max_w < fst (measure_text d tw (token_font bw))"
  shows "[(tw, bw)] \<in> set (fst (build_loop d x flx max_w ts (lines, [(tw, bw)])))
         \<or> snd (build_loop d x flx max_w ts (lines, [(tw, bw)])) = [(tw, bw)]"
proof (induction ts)
  case Nil
  then show ?case by simp
next
  case (Cons tok ts)
  obtain t b where tok: "tok = (t, b)" by (cases tok)
  show ?case
  proof (cases "t = []")
    case True
    then show ?thesis using Cons.IH by (simp add: tok)
  next
    case False
    have "0 \<le> fst (measure_text d t (token_font b))" using nonneg by blast
    then have over: "\<not> measure_tokens d x flx ([(tw, bw)] @ [(t, b)]) (length lines = 0) \<le> max_w"
      using wide off by (simp add: measure_tokens_eq line_width_Cons)
    have "[(tw, bw)] \<in> set (fst (build_loop d x flx max_w ts (lines @ [ [(tw, bw)] ], [(t, b)])))"
      by (rule build_loop_lines_grow) simp
    then show ?thesis using False over by (simp add: tok Let_def)
  qed
qed

lemma build_lines_wide_token:
  assumes nonneg: "\<forall>t f. 0 \<le> fst (measure_text d t f)"
      and off: "0 \<le> first_line_offset x flx"
      and tw: "tw \<noteq> []"
      and wide: "max_w < fst (measure_text d tw (token_font bw))"
  shows "[(tw, bw)] \<in> set (build_lines d x flx max_w (pre @ (tw, bw) # post))"
proof -
  obtain lines current where st: "build_loop d x flx max_w pre ([], []) = (lines, current)"
    by (cases "build_loop d x flx max_w pre ([], [])")
  have "0 \<le> line_width d current" using nonneg by (rule line_width_nonneg)
  then have over: "\<not> measure_tokens d x flx (current @ [(tw, bw)]) (length lines = 0) \<le> max_w"
    using wide off by (simp add: measure_tokens_eq line_width_append line_width_Cons)
  define lines' where "lines' = (if current \<noteq> [] then lines @ [current] else lines)"
  have step: "build_loop d x flx max_w (pre @ (tw, bw) # post) ([], [])
                = build_loop d x flx max_w post (lines', [(tw, bw)])"
    using over tw by (simp add: build_loop_append st Let_def lines'_def)
  obtain l2 c2 where fin: "build_loop d x flx max_w post (lines', [(tw, bw)]) = (l2, c2)"
    by (cases "build_loop d x flx max_w post (lines', [(tw, bw)])")
  from build_loop_wide_kept [OF nonneg off wide, of post lines']
  have "[(tw, bw)] \<in> set l2 \<or> c2 = [(tw, bw)]" by (simp add: fin)
  then show ?thesis by (auto simp: build_lines_def step fin)
qed

lemma build_loop_concat:
  "build_loop d x flx max_w ts (lines, current) = (lines', current') \<Longrightarrow>
   concat lines' @ current' = concat lines @ current @ filter (\<lambda>(t, b). t \<noteq> []) ts"
proof (induction ts arbitrary: lines current)
  case Nil
  then show ?case by simp
next
  case (Cons tok ts)
  obtain t b where tok: "tok = (t, b)" by (cases tok)
  show ?case
  proof (cases "t = []")
    case True
    then show ?thesis using Cons.prems Cons.IH [of lines current] by (simp add: tok)
  next
    case False
    show ?thesis
    proof (cases "measure_tokens d x flx (current @ [(t, b)]) (length lines = 0) \<le> max_w")
      case True
      then have "build_loop d x flx max_w ts (lines, current @ [(t, b)]) = (lines', current')"
        using Cons.prems False by (simp add: tok Let_def)
      from Cons.IH [OF this] show ?thesis using False by (simp add: tok)
    next
      case over: False
      then have "build_loop d x flx max_w ts
                   (if current \<noteq> [] then lines @ [current] else lines, [(t, b)])
                 = (lines', current')"
        using Cons.prems False by (simp add: tok Let_def)
      from Cons.IH [OF this] show ?thesis using False by (simp add: tok)
    qed
  qed
qed

lemma build_lines_concat:
  "concat (build_lines d x flx max_w ts) = filter (\<lambda>(t, b). t \<noteq> []) ts"
proof -
  obtain lines current where st: "build_loop d x flx max_w ts ([], []) = (lines, current)"
    by (cases "build_loop d x flx max_w ts ([], [])")
  from build_loop_concat [OF st] show ?thesis
    by (cases "current = []") (simp_all add: build_lines_def st)
qed

lemma build_loop_fits_inv:
  "build_loop d x flx max_w ts (lines, current) = (lines', current') \<Longrightarrow>
   \<forall>i < length lines. line_fits d x flx max_w i (lines ! i) \<Longrightarrow>
   line_fits d x flx max_w (length lines) current \<Longrightarrow>
   (\<forall>i < length lines'. line_fits d x flx max_w i (lines' ! i))
   \<and> line_fits d x flx max_w (length lines') current'"
proof (induction ts arbitrary: lines current)
  case Nil
  then show ?case by simp
next
  case (Cons tok ts)
  obtain t b where tok: "tok = (t, b)" by (cases tok)
  show ?case
  proof (cases "t = []")
    case True
    then have "build_loop d x flx max_w ts (lines, current) = (lines', current')"
      using Cons.prems(1) by (simp add: tok)
    from Cons.IH [OF this Cons.prems(2) Cons.prems(3)] show ?thesis .
  next
    case False
    show ?thesis
    proof (cases "measure_tokens d x flx (current @ [(t, b)]) (length lines = 0) \<le> max_w")
      case True
      then have run: "build_loop d x flx max_w ts (lines, current @ [(t, b)]) = (lines', current')"
        using Cons.prems(1) False by (simp add: tok Let_def)
      have "line_fits d x flx max_w (length lines) (current @ [(t, b)])"
        using True by (simp add: line_fits_def)
      from Cons.IH [OF run Cons.prems(2) this] show ?thesis .
    next
      case over: False
      show ?thesis
      proof (cases "current = []")
        case True
        then have run: "build_loop d x flx max_w ts (lines, [(t, b)]) = (lines', current')"
          using Cons.prems(1) False over by (simp add: tok Let_def)
        have "line_fits d x flx max_w (length lines) [(t, b)]" by (simp add: line_fits_def)
        from Cons.IH [OF run Cons.prems(2) this] show ?thesis .
      next
        case ne: False
        then have run: "build_loop d x flx max_w ts (lines @ [current], [(t, b)]) = (lines', current')"
          using Cons.prems(1) False over by (simp add: tok Let_def)
        have a: "\<forall>i < length (lines @ [current]). line_fits d x flx max_w i ((lines @ [current]) ! i)"
          using Cons.prems(2) Cons.prems(3) by (auto simp: nth_append less_Suc_eq)
        have b: "line_fits d x flx max_w (length (lines @ [current])) [(t, b)]"
          by (simp add: line_fits_def)
        from Cons.IH [OF run a b] show ?thesis .
      qed
    qed
  qed
qed

lemma build_lines_fits:
  "\<forall>i < length (build_lines d x flx max_w ts).
      line_fits d x flx max_w i (build_lines d x flx max_w ts ! i)"
proof -
  obtain lines current where st: "build_loop d x flx max_w ts ([], []) = (lines, current)"
    by (cases "build_loop d x flx max_w ts ([], [])")
  have "(\<forall>i < length lines. line_fits d x flx max_w i (lines ! i))
        \<and> line_fits d x flx max_w (length lines) current"
    by (rule build_loop_fits_inv [OF st]) (simp_all add: line_fits_def)
  then show ?thesis
    by (auto simp: build_lines_def st nth_append less_Suc_eq)
qed

lemma render_lines_rows:
  "render_lines d x flx line_gap i (line_y y line_gap i) lines
     = (concat (map (\<lambda>(j, line). render_line d (line_x x flx j) (line_y y line_gap j) line)
                 (enumerate i lines)),
        line_y y line_gap (i + length lines))"
proof (induction lines arbitrary: i)
  case Nil
  then show ?case by simp
next
  case (Cons line lines)
  have step: "line_y y line_gap i + FONT_SMALL_size + line_gap = line_y y line_gap (Suc i)"
    by (simp add: line_y_def algebra_simps)
  show ?case
    using Cons.IH [of "Suc i"] by (simp add: step Let_def line_x_def)
qed

lemma draw_rich_wrapped_text_rows:
  "draw_rich_wrapped_text d x y tokens font_reg font_bold max_w line_gap flx
     = (concat (map (\<lambda>(j, line). render_line d (line_x x flx j) (line_y y line_gap j) line)
                 (enumerate 0 (build_lines d x flx max_w tokens))),
        line_y y line_gap (length (build_lines d x flx max_w tokens)))"
  using render_lines_rows [of d x flx line_gap 0 y "build_lines d x flx max_w tokens"]
  by (simp add: draw_rich_wrapped_text_def line_y_def)

text \<open>Lines are never empty, and a line is closed only when the next token does not fit.\<close>

lemma build_loop_nonempty_inv:
  "build_loop d x flx max_w ts (lines, current) = (lines', current') \<Longrightarrow>
   \<forall>l \<in> set lines. l \<noteq> [] \<Longrightarrow> (lines \<noteq> [] \<longrightarrow> current \<noteq> []) \<Longrightarrow>
   (\<forall>l \<in> set lines'. l \<noteq> []) \<and> (lines' \<noteq> [] \<longrightarrow> current' \<noteq> [])"
proof (induction ts arbitrary: lines current)
  case Nil
  then show ?case by simp
next
  case (Cons tok ts)
  obtain t b where tok: "tok = (t, b)" by (cases tok)
  show ?case
  proof (cases "t = []")
    case True
    then have "build_loop d x flx max_w ts (lines, current) = (lines', current')"
      using Cons.prems(1) by (simp add: tok)
    from Cons.IH [OF this Cons.prems(2) Cons.prems(3)] show ?thesis .
  next
    case False
    show ?thesis
    proof (cases "measure_tokens d x flx (current @ [(t, b)]) (length lines = 0) \<le> max_w")
      case True
      then have run: "build_loop d x flx max_w ts (lines, current @ [(t, b)]) = (lines', current')"
        using Cons.prems(1) False by (simp add: tok Let_def)
      show ?thesis by (rule Cons.IH [OF run Cons.prems(2)]) simp
    next
      case over: False
      show ?thesis
      proof (cases "current = []")
        case True
        then have run: "build_loop d x flx max_w ts (lines, [(t, b)]) = (lines', current')"
          using Cons.prems(1) False over by (simp add: tok Let_def)
        show ?thesis by (rule Cons.IH [OF run Cons.prems(2)]) simp
      next
        case ne: False
        then have run: "build_loop d x flx max_w ts (lines @ [current], [(t, b)]) = (lines', current')"
          using Cons.prems(1) False over by (simp add: tok Let_def)
        show ?thesis
          by (rule Cons.IH [OF run]) (use Cons.prems(2) ne in auto)
      qed
    qed
  qed
qed

lemma build_lines_nonempty: "\<forall>l \<in> set (build_lines d x flx max_w ts). l \<noteq> []"
proof -
  obtain lines current where st: "build_loop d x flx max_w ts ([], []) = (lines, current)"
    by (cases "build_loop d x flx max_w ts ([], [])")
  have "(\<forall>l \<in> set lines. l \<noteq> []) \<and> (lines \<noteq> [] \<longrightarrow> current \<noteq> [])"
    by (rule build_loop_nonempty_inv [OF st]) simp_all
  then show ?thesis by (auto simp: build_lines_def st)
qed

lemma closed_late_grow:
  assumes "closed_late d x flx max_w (lines @ [current])"
      and "lines \<noteq> [] \<longrightarrow> current \<noteq> []"
  shows "closed_late d x flx max_w (lines @ [current @ [tok] ])"
  unfolding closed_late_def
proof (intro allI impI)
  fix i
  assume i: "Suc i < length (lines @ [current @ [tok] ])"
  then have il: "i < length lines" by simp
  then have ne: "current \<noteq> []" using assms(2) by auto
  from i have "Suc i < length (lines @ [current])" by simp
  with assms(1) have old:
    "max_w < measure_tokens d x flx ((lines @ [current]) ! i @ [hd ((lines @ [current]) ! Suc i)]) (i = 0)"
    unfolding closed_late_def by blast
  have a: "(lines @ [current @ [tok] ]) ! i = (lines @ [current]) ! i"
    using il by (simp add: nth_append)
  have b: "hd ((lines @ [current @ [tok] ]) ! Suc i) = hd ((lines @ [current]) ! Suc i)"
    using il ne by (cases "Suc i < length lines") (simp_all add: nth_append)
  show "max_w < measure_tokens d x flx
          ((lines @ [current @ [tok] ]) ! i @ [hd ((lines @ [current @ [tok] ]) ! Suc i)]) (i = 0)"
    using old by (simp only: a b)
qed

lemma closed_late_break:
  assumes "closed_late d x flx max_w (lines @ [current])"
      and "max_w < measure_tokens d x flx (current @ [tok]) (length lines = 0)"
  shows "closed_late d x flx max_w ((lines @ [current]) @ [ [tok] ])"
  unfolding closed_late_def
proof (intro allI impI)
  fix i
  assume i: "Suc i < length ((lines @ [current]) @ [ [tok] ])"
  show "max_w < measure_tokens d x flx
          (((lines @ [current]) @ [ [tok] ]) ! i @ [hd (((lines @ [current]) @ [ [tok] ]) ! Suc i)]) (i = 0)"
  proof (cases "Suc i < length (lines @ [current])")
    case True
    with assms(1) have old:
      "max_w < measure_tokens d x flx ((lines @ [current]) ! i @ [hd ((lines @ [current]) ! Suc i)]) (i = 0)"
      unfolding closed_late_def by blast
    have a: "((lines @ [current]) @ [ [tok] ]) ! i = (lines @ [current]) ! i"
      using True by (simp add: nth_append)
    have b: "((lines @ [current]) @ [ [tok] ]) ! Suc i = (lines @ [current]) ! Suc i"
      using True by (simp add: nth_append)
    show ?thesis using old by (simp only: a b)
  next
    case False
    with i have il: "i = length lines" by simp
    have a: "((lines @ [current]) @ [ [tok] ]) ! i = current"
      by (simp add: il nth_append)
    have b: "((lines @ [current]) @ [ [tok] ]) ! Suc i = [tok]"
      by (simp add: il nth_append)
    show ?thesis unfolding a b using assms(2) by (simp add: il)
  qed
qed

lemma build_loop_closed_late_inv:
  "build_loop d x flx max_w ts (lines, current) = (lines', current') \<Longrightarrow>
   closed_late d x flx max_w (lines @ [current]) \<Longrightarrow>
   (lines \<noteq> [] \<longrightarrow> current \<noteq> []) \<Longrightarrow>
   closed_late d x flx max_w (lines' @ [current']) \<and> (lines' \<noteq> [] \<longrightarrow> current' \<noteq> [])"
proof (induction ts arbitrary: lines current)
  case Nil
  then show ?case by simp
next
  case (Cons tok ts)
  obtain t b where tok: "tok = (t, b)" by (cases tok)
  show ?case
  proof (cases "t = []")
    case True
    then have "build_loop d x flx max_w ts (lines, current) = (lines', current')"
      using Cons.prems(1) by (simp add: tok)
    from Cons.IH [OF this Cons.prems(2) Cons.prems(3)] show ?thesis .
  next
    case False
    show ?thesis
    proof (cases "measure_tokens d x flx (current @ [(t, b)]) (length lines = 0) \<le> max_w")
      case True
      then have run: "build_loop d x flx max_w ts (lines, current @ [(t, b)]) = (lines', current')"
        using Cons.prems(1) False by (simp add: tok Let_def)
      have "closed_late d x flx max_w (lines @ [current @ [(t, b)] ])"
        using Cons.prems(2) Cons.prems(3) by (rule closed_late_grow)
      from Cons.IH [OF run this] show ?thesis by simp
    next
      case over: False
      show ?thesis
      proof (cases "current = []")
        case True
        then have empty: "lines = []" using Cons.prems(3) by auto
        have run: "build_loop d x flx max_w ts ([], [(t, b)]) = (lines', current')"
          using Cons.prems(1) False over True empty by (simp add: tok Let_def)
        have "closed_late d x flx max_w ([] @ [ [(t, b)] ])"
          by (simp add: closed_late_def)
        from Cons.IH [OF run this] show ?thesis by simp
      next
        case ne: False
        then have run: "build_loop d x flx max_w ts (lines @ [current], [(t, b)]) = (lines', current')"
          using Cons.prems(1) False over by (simp add: tok Let_def)
        have "closed_late d x flx max_w ((lines @ [current]) @ [ [(t, b)] ])"
          using Cons.prems(2) over by (intro closed_late_break) simp_all
        from Cons.IH [OF run this] show ?thesis by simp
      qed
    qed
  qed
qed

lemma build_lines_closed_late: "closed_late d x flx max_w (build_lines d x flx max_w ts)"
proof -
  obtain lines current where st: "build_loop d x flx max_w ts ([], []) = (lines, current)"
    by (cases "build_loop d x flx max_w ts ([], [])")
  have inv: "closed_late d x flx max_w (lines @ [current]) \<and> (lines \<noteq> [] \<longrightarrow> current \<noteq> [])"
    by (rule build_loop_closed_late_inv [OF st]) (simp_all add: closed_late_def)
  show ?thesis
  proof (cases "current = []")
    case True
    with inv have "lines = []" by auto
    then show ?thesis using True by (simp add: build_lines_def st closed_late_def)
  next
    case False
    then show ?thesis using inv by (simp add: build_lines_def st)
  qed
qed

lemma line_x_next [simp]: "line_x x flx (Suc i) = x"
  by (simp add: line_x_def split: option.splits)

lemma line_y_0 [simp]: "line_y y line_gap 0 = y"
  by (simp add: line_y_def)

text \<open>
  C7 (as amended). The wrapper is greedy on measured width, for a text-measure function
  with non-negative widths: a sequence of non-empty tokens whose measure on the first
  line is exactly \<open>max_w\<close> is drawn on one line, and one more non-empty token of positive
  width is drawn alone on a second line; a token wider than \<open>max_w\<close> is a line of its own,
  never split, provided the first-line x-offset \<open>first_line_x - x\<close> is not negative; the
  first-line x-offset is added to the measure of the first line only, against the same
  \<open>max_w\<close>. The drawn text is the lines in order, line \<open>i\<close> at height
  \<open>y + i * (FONT_SMALL.size + line_gap)\<close>, the first from \<open>first_line_x\<close> and the others
  from \<open>x\<close>; the lines regroup the non-empty tokens in order; every line with more than
  one token fits, and every line is closed only when the next token does not fit on it.
\<close>

theorem draw_rich_wrapped_text_greedy:
  assumes nonneg: "\<forall>t f. 0 \<le> fst (measure_text d t f)"
  shows "((\<forall>(t, b) \<in> set ts. t \<noteq> []) \<and> ts \<noteq> []
           \<and> measure_tokens d x first_line_x ts True = max_w \<longrightarrow>
            build_lines d x first_line_x max_w ts = [ts]
            \<and> draw_rich_wrapped_text d x y ts font_reg font_bold max_w line_gap first_line_x
                = (render_line d (line_x x first_line_x 0) y ts, line_y y line_gap 1)
            \<and> (\<forall>t b. t \<noteq> [] \<and> 0 < fst (measure_text d t (token_font b)) \<longrightarrow>
                 build_lines d x first_line_x max_w (ts @ [(t, b)]) = [ts, [(t, b)] ]
                 \<and> draw_rich_wrapped_text d x y (ts @ [(t, b)]) font_reg font_bold max_w
                      line_gap first_line_x
                     = (render_line d (line_x x first_line_x 0) y ts
                          @ [DrawText x (line_y y line_gap 1) t (token_font b)],
                        line_y y line_gap 2)))
    \<and> (0 \<le> first_line_offset x first_line_x \<and> tw \<noteq> []
         \<and> max_w < fst (measure_text d tw (token_font bw)) \<longrightarrow>
          [(tw, bw)] \<in> set (build_lines d x first_line_x max_w (pre @ (tw, bw) # post)))
    \<and> draw_rich_wrapped_text d x y us font_reg font_bold max_w line_gap first_line_x
        = (concat (map (\<lambda>(j, line). render_line d (line_x x first_line_x j)
                                       (line_y y line_gap j) line)
                     (enumerate 0 (build_lines d x first_line_x max_w us))),
           line_y y line_gap (length (build_lines d x first_line_x max_w us)))
    \<and> concat (build_lines d x first_line_x max_w us) = filter (\<lambda>(t, b). t \<noteq> []) us
    \<and> (\<forall>l \<in> set (build_lines d x first_line_x max_w us). l \<noteq> [])
    \<and> (\<forall>i < length (build_lines d x first_line_x max_w us).
          line_fits d x first_line_x max_w i (build_lines d x first_line_x max_w us ! i))
    \<and> closed_late d x first_line_x max_w (build_lines d x first_line_x max_w us)
    \<and> measure_tokens d x first_line_x us True
        = line_width d us + first_line_offset x first_line_x
    \<and> measure_tokens d x first_line_x us False = line_width d us"
proof (intro conjI impI)
  assume h: "(\<forall>(t, b) \<in> set ts. t \<noteq> []) \<and> ts \<noteq> []
              \<and> measure_tokens d x first_line_x ts True = max_w"
  then show "build_lines d x first_line_x max_w ts = [ts]"
    using nonneg by (intro build_lines_one_line) simp_all
next
  assume h: "(\<forall>(t, b) \<in> set ts. t \<noteq> []) \<and> ts \<noteq> []
              \<and> measure_tokens d x first_line_x ts True = max_w"
  then have one: "build_lines d x first_line_x max_w ts = [ts]"
    using nonneg by (intro build_lines_one_line) simp_all
  show "draw_rich_wrapped_text d x y ts font_reg font_bold max_w line_gap first_line_x
          = (render_line d (line_x x first_line_x 0) y ts, line_y y line_gap 1)"
    by (simp add: draw_rich_wrapped_text_rows one)
next
  assume h: "(\<forall>(t, b) \<in> set ts. t \<noteq> []) \<and> ts \<noteq> []
              \<and> measure_tokens d x first_line_x ts True = max_w"
  show "\<forall>t b. t \<noteq> [] \<and> 0 < fst (measure_text d t (token_font b)) \<longrightarrow>
          build_lines d x first_line_x max_w (ts @ [(t, b)]) = [ts, [(t, b)] ]
          \<and> draw_rich_wrapped_text d x y (ts @ [(t, b)]) font_reg font_bold max_w
               line_gap first_line_x
              = (render_line d (line_x x first_line_x 0) y ts
                   @ [DrawText x (line_y y line_gap 1) t (token_font b)],
                 line_y y line_gap 2)"
  proof (intro allI impI)
    fix t b
    assume "t \<noteq> [] \<and> 0 < fst (measure_text d t (token_font b))"
    then have two: "build_lines d x first_line_x max_w (ts @ [(t, b)]) = [ts, [(t, b)] ]"
      using nonneg h by (intro build_lines_second_line) simp_all
    have "draw_rich_wrapped_text d x y (ts @ [(t, b)]) font_reg font_bold max_w
               line_gap first_line_x
              = (render_line d (line_x x first_line_x 0) y ts
                   @ [DrawText x (line_y y line_gap 1) t (token_font b)],
                 line_y y line_gap 2)"
      by (simp add: draw_rich_wrapped_text_rows two line_y_def)
    with two show "build_lines d x first_line_x max_w (ts @ [(t, b)]) = [ts, [(t, b)] ]
          \<and> draw_rich_wrapped_text d x y (ts @ [(t, b)]) font_reg font_bold max_w
               line_gap first_line_x
              = (render_line d (line_x x first_line_x 0) y ts
                   @ [DrawText x (line_y y line_gap 1) t (token_font b)],
                 line_y y line_gap 2)" by simp
  qed
next
  assume "0 \<le> first_line_offset x first_line_x \<and> tw \<noteq> []
           \<and> max_w < fst (measure_text d tw (token_font bw))"
  then show "[(tw, bw)] \<in> set (build_lines d x first_line_x max_w (pre @ (tw, bw) # post))"
    using nonneg by (intro build_lines_wide_token) simp_all
next
  show "draw_rich_wrapped_text d x y us font_reg font_bold max_w line_gap first_line_x
        = (concat (map (\<lambda>(j, line). render_line d (line_x x first_line_x j)
                                       (line_y y line_gap j) line)
                     (enumerate 0 (build_lines d x first_line_x max_w us))),
           line_y y line_gap (length (build_lines d x first_line_x max_w us)))"
    by (rule draw_rich_wrapped_text_rows)
next
  show "concat (build_lines d x first_line_x max_w us) = filter (\<lambda>(t, b). t \<noteq> []) us"
    by (rule build_lines_concat)
next
  show "\<forall>l \<in> set (build_lines d x first_line_x max_w us). l \<noteq> []"
    by (rule build_lines_nonempty)
next
  show "\<forall>i < length (build_lines d x first_line_x max_w us).
          line_fits d x first_line_x max_w i (build_lines d x first_line_x max_w us ! i)"
    by (rule build_lines_fits)
next
  show "closed_late d x first_line_x max_w (build_lines d x first_line_x max_w us)"
    by (rule build_lines_closed_late)
next
  show "measure_tokens d x first_line_x us True
          = line_width d us + first_line_offset x first_line_x"
    by (simp add: measure_tokens_eq)
next
  show "measure_tokens d x first_line_x us False = line_width d us"
    by (simp add: measure_tokens_eq)
qed

lemmas wrap_eval =
  build_lines_def measure_tokens_def line_width_def measure_text_def draw_10px_def
  first_line_offset_def line_fits_def token_font_def Let_def

lemmas draw_eval =
  draw_rich_wrapped_text_def FONT_SMALL_size_def line_x_def line_y_def

theorem draw_rich_wrapped_text_greedy_witness:
  "measure_tokens draw_10px 0 (Some 10) [(''ab'', PyNone), (''cd'', Bold)] True = 50
   \<and> draw_rich_wrapped_text draw_10px 0 0 [(''ab'', PyNone), (''cd'', Bold)]
        FONT_SMALL FONT_SMALL_B 50 4 (Some 10)
       = ([DrawText 10 0 ''ab'' FONT_SMALL, DrawText 30 0 ''cd'' FONT_SMALL_B], 30)
   \<and> 0 < fst (measure_text draw_10px ''e'' (token_font Emph))
   \<and> draw_rich_wrapped_text draw_10px 0 0 ([(''ab'', PyNone), (''cd'', Bold)] @ [(''e'', Emph)])
        FONT_SMALL FONT_SMALL_B 50 4 (Some 10)
       = ([DrawText 10 0 ''ab'' FONT_SMALL, DrawText 30 0 ''cd'' FONT_SMALL_B,
           DrawText 0 30 ''e'' FONT_SMALL_EMPH_B], 60)
   \<and> 0 \<le> first_line_offset 0 (Some 10)
   \<and> 50 < fst (measure_text draw_10px ''abcdef'' (token_font PyNone))
   \<and> [(''abcdef'', PyNone)]
       \<in> set (build_lines draw_10px 0 (Some 10) 50
                 ([(''x'', PyNone)] @ (''abcdef'', PyNone) # [(''y'', Bold)]))
   \<and> build_lines draw_10px 0 (Some 10) 50
        [(''abc'', PyNone), (''d'', PyNone), (''ef'', PyNone), (''g'', PyNone), (''hij'', PyNone)]
       = [ [(''abc'', PyNone), (''d'', PyNone)], [(''ef'', PyNone), (''g'', PyNone)],
           [(''hij'', PyNone)] ]
   \<and> draw_rich_wrapped_text draw_10px 0 0
        [(''abc'', PyNone), (''d'', PyNone), (''ef'', PyNone), (''g'', PyNone), (''hij'', PyNone)]
        FONT_SMALL FONT_SMALL_B 50 4 (Some 10)
       = ([DrawText 10 0 ''abc'' FONT_SMALL, DrawText 40 0 ''d'' FONT_SMALL,
           DrawText 0 30 ''ef'' FONT_SMALL, DrawText 20 30 ''g'' FONT_SMALL,
           DrawText 0 60 ''hij'' FONT_SMALL], 90)
   \<and> line_fits draw_10px 0 (Some 10) 50 0 [(''abc'', PyNone), (''d'', PyNone)]
   \<and> line_fits draw_10px 0 (Some 10) 50 1 [(''ef'', PyNone), (''g'', PyNone)]
   \<and> 50 < measure_tokens draw_10px 0 (Some 10)
            ([(''abc'', PyNone), (''d'', PyNone)] @ [(''ef'', PyNone)]) True
   \<and> 50 < measure_tokens draw_10px 0 (Some 10)
            ([(''ef'', PyNone), (''g'', PyNone)] @ [(''hij'', PyNone)]) False"
proof -
  define us where "us = [(''abc'', PyNone), (''d'', PyNone), (''ef'', PyNone), (''g'', PyNone),
                         (''hij'', PyNone)]"
  have nn: "\<forall>t f. 0 \<le> fst (measure_text draw_10px t f)"
    by (simp add: measure_text_def draw_10px_def)
  have a: "(\<forall>(t, b) \<in> set [(''ab'', PyNone), (''cd'', Bold)]. t \<noteq> [])
           \<and> [(''ab'', PyNone), (''cd'', Bold)] \<noteq> []
           \<and> measure_tokens draw_10px 0 (Some 10) [(''ab'', PyNone), (''cd'', Bold)] True = 50"
    by (simp add: wrap_eval)
  have e: "''e'' \<noteq> [] \<and> 0 < fst (measure_text draw_10px ''e'' (token_font Emph))"
    by (simp add: wrap_eval)
  have w: "0 \<le> first_line_offset 0 (Some 10) \<and> ''abcdef'' \<noteq> []
           \<and> 50 < fst (measure_text draw_10px ''abcdef'' (token_font PyNone))"
    by (simp add: wrap_eval)
  have l5: "build_lines draw_10px 0 (Some 10) 50 us
       = [ [(''abc'', PyNone), (''d'', PyNone)], [(''ef'', PyNone), (''g'', PyNone)],
           [(''hij'', PyNone)] ]"
    by (simp add: us_def wrap_eval)
  note inst = draw_rich_wrapped_text_greedy [OF nn,
      of "[(''ab'', PyNone), (''cd'', Bold)]" 0 "Some 10" 50 0 FONT_SMALL FONT_SMALL_B 4
         "''abcdef''" PyNone "[(''x'', PyNone)]" "[(''y'', Bold)]" us]
  from inst a
  have one: "draw_rich_wrapped_text draw_10px 0 0 [(''ab'', PyNone), (''cd'', Bold)]
        FONT_SMALL FONT_SMALL_B 50 4 (Some 10)
       = (render_line draw_10px (line_x 0 (Some 10) 0) 0 [(''ab'', PyNone), (''cd'', Bold)],
          line_y 0 4 1)"
    by blast
  then have one': "draw_rich_wrapped_text draw_10px 0 0 [(''ab'', PyNone), (''cd'', Bold)]
        FONT_SMALL FONT_SMALL_B 50 4 (Some 10)
       = ([DrawText 10 0 ''ab'' FONT_SMALL, DrawText 30 0 ''cd'' FONT_SMALL_B], 30)"
    by (simp add: line_x_def line_y_def FONT_SMALL_size_def token_font_def measure_text_def
        draw_10px_def)
  from inst a e
  have two: "draw_rich_wrapped_text draw_10px 0 0
        ([(''ab'', PyNone), (''cd'', Bold)] @ [(''e'', Emph)])
        FONT_SMALL FONT_SMALL_B 50 4 (Some 10)
       = (render_line draw_10px (line_x 0 (Some 10) 0) 0 [(''ab'', PyNone), (''cd'', Bold)]
            @ [DrawText 0 (line_y 0 4 1) ''e'' (token_font Emph)],
          line_y 0 4 2)"
    by blast
  then have two': "draw_rich_wrapped_text draw_10px 0 0
        ([(''ab'', PyNone), (''cd'', Bold)] @ [(''e'', Emph)])
        FONT_SMALL FONT_SMALL_B 50 4 (Some 10)
       = ([DrawText 10 0 ''ab'' FONT_SMALL, DrawText 30 0 ''cd'' FONT_SMALL_B,
           DrawText 0 30 ''e'' FONT_SMALL_EMPH_B], 60)"
    by (simp add: line_x_def line_y_def FONT_SMALL_size_def token_font_def measure_text_def
        draw_10px_def)
  from inst w have three: "[(''abcdef'', PyNone)]
       \<in> set (build_lines draw_10px 0 (Some 10) 50
                 ([(''x'', PyNone)] @ (''abcdef'', PyNone) # [(''y'', Bold)]))" by blast
  from inst
  have rows: "draw_rich_wrapped_text draw_10px 0 0 us FONT_SMALL FONT_SMALL_B 50 4 (Some 10)
        = (concat (map (\<lambda>(j, line). render_line draw_10px (line_x 0 (Some 10) j)
                                       (line_y 0 4 j) line)
                     (enumerate 0 (build_lines draw_10px 0 (Some 10) 50 us))),
           line_y 0 4 (length (build_lines draw_10px 0 (Some 10) 50 us)))"
    by blast
  have rows': "draw_rich_wrapped_text draw_10px 0 0 us FONT_SMALL FONT_SMALL_B 50 4 (Some 10)
       = ([DrawText 10 0 ''abc'' FONT_SMALL, DrawText 40 0 ''d'' FONT_SMALL,
           DrawText 0 30 ''ef'' FONT_SMALL, DrawText 20 30 ''g'' FONT_SMALL,
           DrawText 0 60 ''hij'' FONT_SMALL], 90)"
    unfolding rows l5
    by (simp add: line_x_def line_y_def FONT_SMALL_size_def token_font_def measure_text_def
        draw_10px_def)
  from inst have fits: "\<forall>i < length (build_lines draw_10px 0 (Some 10) 50 us).
         line_fits draw_10px 0 (Some 10) 50 i (build_lines draw_10px 0 (Some 10) 50 us ! i)"
    by blast
  have f0: "line_fits draw_10px 0 (Some 10) 50 0 [(''abc'', PyNone), (''d'', PyNone)]"
    using fits [rule_format, of 0] by (simp add: l5)
  have f1: "line_fits draw_10px 0 (Some 10) 50 1 [(''ef'', PyNone), (''g'', PyNone)]"
    using fits [rule_format, of 1] by (simp add: l5)
  from inst have late: "closed_late draw_10px 0 (Some 10) 50
                          (build_lines draw_10px 0 (Some 10) 50 us)"
    by blast
  have c0: "50 < measure_tokens draw_10px 0 (Some 10)
            ([(''abc'', PyNone), (''d'', PyNone)] @ [(''ef'', PyNone)]) True"
    using late [unfolded closed_late_def, rule_format, of 0] by (simp add: l5)
  have c1: "50 < measure_tokens draw_10px 0 (Some 10)
            ([(''ef'', PyNone), (''g'', PyNone)] @ [(''hij'', PyNone)]) False"
    using late [unfolded closed_late_def, rule_format, of 1] by (simp add: l5)
  show ?thesis
    using a e w one' two' three l5 rows' f0 f1 c0 c1 unfolding us_def by blast
qed

theorem wide_token_shares_line_counterexample:
  "50 < fst (measure_text draw_10px ''abcdef'' (token_font PyNone))
   \<and> build_lines draw_10px 20 (Some 0) 50 [(''abcdef'', PyNone), (''g'', PyNone)]
       = [ [(''abcdef'', PyNone), (''g'', PyNone)] ]
   \<and> [(''abcdef'', PyNone)]
       \<notin> set (build_lines draw_10px 20 (Some 0) 50 [(''abcdef'', PyNone), (''g'', PyNone)])
   \<and> draw_rich_wrapped_text draw_10px 20 0 [(''abcdef'', PyNone), (''g'', PyNone)]
        FONT_SMALL FONT_SMALL_B 50 4 (Some 0)
       = ([DrawText 0 0 ''abcdef'' FONT_SMALL, DrawText 60 0 ''g'' FONT_SMALL], 30)"
  by (simp add: wrap_eval draw_rich_wrapped_text_def FONT_SMALL_size_def)

section \<open>Linear format\<close>

text \<open>
  C2. The specification: every input combination renders an image, the linear format with
  polyalcohols included too. In \<open>draw_fig5\<close> the polyalcohol item reads the global
  \<open>poly_100_r\<close>, which the module never assigns: with polyalcohols included the call
  ends in a \<open>NameError\<close> and returns no image; without them it returns one.
\<close>

theorem draw_fig5_polyalcohols_name_error:
  "(include_poly s \<longrightarrow> draw_fig5 d s = Inl (NameError ''poly_100_r''))
   \<and> (\<not> include_poly s \<longrightarrow> (\<exists>img. draw_fig5 d s = Inr img))"
  by (simp add: draw_fig5_def fig5_tokens_100_def fig5_tokens_pp_def poly_item_def
      unbound_global_def Let_def)

theorem draw_fig5_polyalcohols_name_error_witness:
  "include_poly (default_snapshot\<lparr>format_choice := Fig5_Lineal, include_poly := True\<rparr>)
   \<and> draw_fig5 draw_10px (default_snapshot\<lparr>format_choice := Fig5_Lineal, include_poly := True\<rparr>)
       = Inl (NameError ''poly_100_r'')
   \<and> \<not> include_poly (default_snapshot\<lparr>format_choice := Fig5_Lineal\<rparr>)
   \<and> (\<exists>img. draw_fig5 draw_10px (default_snapshot\<lparr>format_choice := Fig5_Lineal\<rparr>) = Inr img)"
  using draw_fig5_polyalcohols_name_error
          [of "default_snapshot\<lparr>format_choice := Fig5_Lineal, include_poly := True\<rparr>" draw_10px]
        draw_fig5_polyalcohols_name_error
          [of "default_snapshot\<lparr>format_choice := Fig5_Lineal\<rparr>" draw_10px]
  by (simp add: default_snapshot_def)

end
